theory Spec2Isabelle
  imports Complex_Main "HOL-Library.Word"
begin

section \<open>Canvas bitmaps\<close>

text \<open>
  A canvas bitmap is a row-major list of RGBA pixels with 8-bit channels. The colour
  channels are stored premultiplied by alpha, the form in which the bitmap of a 2D
  context is composited. An \<open>ImageData\<close> snapshot carries its own width and height
  and a copy of the pixels; the conversion between the premultiplied bitmap and the
  bytes of an \<open>ImageData\<close> is taken to be exact in both directions.
\<close>

type_synonym channel = "8 word"

record pixel =
  red :: channel
  green :: channel
  blue :: channel
  alpha :: channel

definition transparent :: pixel where
  "transparent = \<lparr>red = 0, green = 0, blue = 0, alpha = 0\<rparr>"

definition white :: pixel where
  "white = \<lparr>red = 255, green = 255, blue = 255, alpha = 255\<rparr>"

definition black :: pixel where
  "black = \<lparr>red = 0, green = 0, blue = 0, alpha = 255\<rparr>"

record canvas =
  cwidth :: nat
  cheight :: nat
  bitmap :: "pixel list"

record imagedata =
  iwidth :: nat
  iheight :: nat
  idata :: "pixel list"

text \<open>\<open>document.createElement('canvas')\<close> with its width and height set: a transparent bitmap.\<close>

definition createCanvas :: "nat \<Rightarrow> nat \<Rightarrow> canvas" where
  "createCanvas w h = \<lparr>cwidth = w, cheight = h, bitmap = replicate (w * h) transparent\<rparr>"

text \<open>\<open>ctx.clearRect(0, 0, canvas.width, canvas.height)\<close>: every pixel becomes transparent.\<close>

definition clearRect :: "canvas \<Rightarrow> canvas" where
  "clearRect c = c\<lparr>bitmap := map (\<lambda>_. transparent) (bitmap c)\<rparr>"

text \<open>
  \<open>ctx.getImageData(0, 0, canvas.width, canvas.height)\<close>: a copy of the whole bitmap. On
  a canvas of width or height zero the call raises an \<open>IndexSizeError\<close> (\<open>None\<close>).
\<close>

definition snapshot :: "canvas \<Rightarrow> imagedata" where
  "snapshot c = \<lparr>iwidth = cwidth c, iheight = cheight c, idata = bitmap c\<rparr>"

definition getImageData :: "canvas \<Rightarrow> imagedata option" where
  "getImageData c = (if cwidth c = 0 \<or> cheight c = 0 then None else Some (snapshot c))"

text \<open>
  \<open>ctx.putImageData(img, 0, 0)\<close>: the pixel at column \<open>x\<close> and row \<open>y\<close> of the canvas is
  replaced by the pixel of the snapshot at the same position where the snapshot has one,
  and kept elsewhere.
\<close>

definition putImageData :: "imagedata \<Rightarrow> canvas \<Rightarrow> canvas" where
  "putImageData img c =
     c\<lparr>bitmap :=
         map (\<lambda>i. let x = i mod cwidth c; y = i div cwidth c
                  in if x < iwidth img \<and> y < iheight img \<and> y * iwidth img + x < length (idata img)
                     then idata img ! (y * iwidth img + x)
                     else bitmap c ! i)
             [0..<length (bitmap c)]\<rparr>"

text \<open>A canvas that is not empty and whose bitmap holds one pixel for each position.\<close>

definition canvas_ok :: "canvas \<Rightarrow> bool" where
  "canvas_ok c = (0 < cwidth c \<and> 0 < cheight c \<and> length (bitmap c) = cwidth c * cheight c)"

section \<open>The edit history of the masking canvas (MaskingCanvas.tsx)\<close>

text \<open>
  The component's mutable cells: \<open>drawingCanvasRef\<close> (\<open>None\<close> while the element or its
  2D context is missing), \<open>imageRef\<close> (the natural width and height of the loaded image),
  \<open>historyRef\<close>, \<open>historyIndexRef\<close>, the \<open>isDrawing\<close> flag, \<open>lastPointRef\<close> and the
  \<open>brushSize\<close> property. \<open>reports\<close> lists the calls of \<open>onHistoryChange\<close>, in order, each
  with the pair \<open>(canUndo, canRedo)\<close> it was given.
\<close>

record 'pt masking =
  drawingCanvas :: "canvas option"
  imageRef :: "(nat \<times> nat) option"
  history :: "imagedata list"
  historyIndex :: int
  isDrawing :: bool
  lastPoint :: "'pt option"
  brushSize :: nat
  reports :: "(bool \<times> bool) list"

definition updateHistoryState :: "'pt masking \<Rightarrow> 'pt masking" where
  "updateHistoryState s =
     s\<lparr>reports := reports s @
          [(historyIndex s > 0, historyIndex s < int (length (history s)) - 1)]\<rparr>"

text \<open>
  \<open>Array.prototype.splice(start)\<close> with one argument removes every element from \<open>start\<close>
  on; a negative \<open>start\<close> counts from the end of the array.
\<close>

definition splice_from :: "int \<Rightarrow> 'a list \<Rightarrow> 'a list" where
  "splice_from start xs =
     (if start < 0 then take (nat (max (int (length xs) + start) 0)) xs
      else take (nat start) xs)"

text \<open>
  \<open>saveState\<close> truncates the history in place before it reads the bitmap; when
  \<open>getImageData\<close> raises, the handler ends there, with nothing pushed and nothing reported.
\<close>

definition saveState :: "'pt masking \<Rightarrow> 'pt masking" where
  "saveState s =
     (case drawingCanvas s of
        None \<Rightarrow> s
      | Some c \<Rightarrow>
          let h = (if historyIndex s < int (length (history s)) - 1
                   then splice_from (historyIndex s + 1) (history s)
                   else history s)
          in (case getImageData c of
                None \<Rightarrow> s\<lparr>history := h\<rparr>
              | Some img \<Rightarrow>
                  updateHistoryState
                    (s\<lparr>history := h @ [img], historyIndex := historyIndex s + 1\<rparr>)))"

text \<open>
  \<open>restoreState\<close> clears the layer and puts the snapshot under the cursor back. Reading
  \<open>historyRef.current[i]\<close> beyond the end of the array yields \<open>undefined\<close>, on which
  \<open>putImageData\<close> raises a \<open>TypeError\<close>: the handler then ends with the layer cleared and
  without the call of \<open>updateHistoryState\<close>.
\<close>

definition restoreState :: "'pt masking \<Rightarrow> 'pt masking" where
  "restoreState s =
     (case drawingCanvas s of
        None \<Rightarrow> s
      | Some c \<Rightarrow>
          let c1 = clearRect c in
          if historyIndex s \<ge> 0 then
            (if nat (historyIndex s) < length (history s)
             then updateHistoryState
                    (s\<lparr>drawingCanvas := Some (putImageData (history s ! nat (historyIndex s)) c1)\<rparr>)
             else s\<lparr>drawingCanvas := Some c1\<rparr>)
          else updateHistoryState (s\<lparr>drawingCanvas := Some c1\<rparr>))"

definition undo :: "'pt masking \<Rightarrow> 'pt masking" where
  "undo s =
     (if historyIndex s > 0 then restoreState (s\<lparr>historyIndex := historyIndex s - 1\<rparr>) else s)"

definition redo :: "'pt masking \<Rightarrow> 'pt masking" where
  "redo s =
     (if historyIndex s < int (length (history s)) - 1
      then restoreState (s\<lparr>historyIndex := historyIndex s + 1\<rparr>) else s)"

definition clearMask :: "'pt masking \<Rightarrow> 'pt masking" where
  "clearMask s =
     (case drawingCanvas s of
        None \<Rightarrow> s
      | Some c \<Rightarrow>
          saveState (s\<lparr>drawingCanvas := Some (clearRect c), history := [], historyIndex := - 1\<rparr>))"

subsection \<open>Strokes\<close>

text \<open>
  The rasterisation of a path (\<open>ctx.stroke()\<close>, \<open>ctx.fill()\<close>) is the browser's. It is a
  parameter of the model: from the brush size, the shape and the current bitmap it gives
  the pixels it writes, each with its index; an index outside the bitmap is clipped.
\<close>

datatype 'pt shape = Segment 'pt 'pt | Disc 'pt

type_synonym 'pt rasteriser = "nat \<Rightarrow> 'pt shape \<Rightarrow> canvas \<Rightarrow> (nat \<times> pixel) list"

definition apply_writes :: "(nat \<times> pixel) list \<Rightarrow> canvas \<Rightarrow> canvas" where
  "apply_writes ws c = c\<lparr>bitmap := foldl (\<lambda>b (i, p). b[i := p]) (bitmap c) ws\<rparr>"

definition getMousePos :: "'pt masking \<Rightarrow> 'pt \<Rightarrow> 'pt option" where
  "getMousePos s e = (case drawingCanvas s of None \<Rightarrow> None | Some c \<Rightarrow> Some e)"

definition drawOnCanvas :: "'pt rasteriser \<Rightarrow> 'pt \<Rightarrow> 'pt masking \<Rightarrow> 'pt masking" where
  "drawOnCanvas rast p s =
     (case drawingCanvas s of
        None \<Rightarrow> s
      | Some c \<Rightarrow>
          let sh = (case lastPoint s of Some l \<Rightarrow> Segment l p | None \<Rightarrow> Disc p)
          in s\<lparr>drawingCanvas := Some (apply_writes (rast (brushSize s) sh c) c),
               lastPoint := Some p\<rparr>)"

definition handleMouseDown :: "'pt rasteriser \<Rightarrow> 'pt \<Rightarrow> 'pt masking \<Rightarrow> 'pt masking" where
  "handleMouseDown rast e s =
     (let s1 = s\<lparr>isDrawing := True\<rparr>
      in case getMousePos s1 e of
           None \<Rightarrow> s1
         | Some pos \<Rightarrow> drawOnCanvas rast pos (s1\<lparr>lastPoint := Some pos\<rparr>))"

definition handleMouseMove :: "'pt rasteriser \<Rightarrow> 'pt \<Rightarrow> 'pt masking \<Rightarrow> 'pt masking" where
  "handleMouseMove rast e s =
     (if \<not> isDrawing s then s
      else case getMousePos s e of None \<Rightarrow> s | Some pos \<Rightarrow> drawOnCanvas rast pos s)"

definition handleMouseUp :: "'pt masking \<Rightarrow> 'pt masking" where
  "handleMouseUp s =
     (if \<not> isDrawing s then s
      else saveState (s\<lparr>isDrawing := False, lastPoint := None\<rparr>))"

text \<open>A completed stroke: pointer down at \<open>p\<close>, moves through \<open>ps\<close>, pointer up.\<close>

definition stroke :: "'pt rasteriser \<Rightarrow> 'pt \<times> 'pt list \<Rightarrow> 'pt masking \<Rightarrow> 'pt masking" where
  "stroke rast st s =
     handleMouseUp (foldl (\<lambda>t q. handleMouseMove rast q t) (handleMouseDown rast (fst st) s) (snd st))"

section \<open>The mask export (getMaskAsBase64 of MaskingCanvas.tsx)\<close>

text \<open>
  The compositing operators of the 2D context, on premultiplied 8-bit channels. The
  product of two channel values read as fractions of 255 is rounded to the nearest
  channel value. On premultiplied pixels, where no colour channel exceeds alpha, the
  sums below stay within 255.
\<close>

definition mul8 :: "channel \<Rightarrow> channel \<Rightarrow> channel" where
  "mul8 x y = of_nat ((unat x * unat y + 127) div 255)"

text \<open>\<open>source-over\<close> (the default): the source is drawn over the destination.\<close>

definition source_over :: "pixel \<Rightarrow> pixel \<Rightarrow> pixel" where
  "source_over src dst =
     \<lparr>red = red src + mul8 (red dst) (255 - alpha src),
      green = green src + mul8 (green dst) (255 - alpha src),
      blue = blue src + mul8 (blue dst) (255 - alpha src),
      alpha = alpha src + mul8 (alpha dst) (255 - alpha src)\<rparr>"

text \<open>\<open>source-in\<close>: the source, weighted by the destination's alpha; the destination's colour is dropped.\<close>

definition source_in :: "pixel \<Rightarrow> pixel \<Rightarrow> pixel" where
  "source_in src dst =
     \<lparr>red = mul8 (red src) (alpha dst),
      green = mul8 (green src) (alpha dst),
      blue = mul8 (blue src) (alpha dst),
      alpha = mul8 (alpha src) (alpha dst)\<rparr>"

text \<open>\<open>destination-over\<close>: the source is drawn behind the destination.\<close>

definition destination_over :: "pixel \<Rightarrow> pixel \<Rightarrow> pixel" where
  "destination_over src dst =
     \<lparr>red = red dst + mul8 (red src) (255 - alpha dst),
      green = green dst + mul8 (green src) (255 - alpha dst),
      blue = blue dst + mul8 (blue src) (255 - alpha dst),
      alpha = alpha dst + mul8 (alpha src) (255 - alpha dst)\<rparr>"

text \<open>\<open>ctx.fillRect(0, 0, canvas.width, canvas.height)\<close> with a solid fill colour under a compositing operator.\<close>

definition fillRect :: "(pixel \<Rightarrow> pixel \<Rightarrow> pixel) \<Rightarrow> pixel \<Rightarrow> canvas \<Rightarrow> canvas" where
  "fillRect op colour c = c\<lparr>bitmap := map (op colour) (bitmap c)\<rparr>"

text \<open>
  \<open>ctx.drawImage(src, 0, 0, src.width, src.height, 0, 0, canvas.width, canvas.height)\<close>
  scales the whole source layer onto the whole canvas. The resampling filter is the
  browser's and is a parameter: \<open>smp src w h x y\<close> is the pixel of the source layer
  scaled to \<open>w\<close> by \<open>h\<close>, at column \<open>x\<close> and row \<open>y\<close>. It is composited with
  \<open>source-over\<close>.
\<close>

type_synonym sampler = "canvas \<Rightarrow> nat \<Rightarrow> nat \<Rightarrow> nat \<Rightarrow> nat \<Rightarrow> pixel"

definition drawImage_scaled :: "sampler \<Rightarrow> canvas \<Rightarrow> canvas \<Rightarrow> canvas" where
  "drawImage_scaled smp src c =
     c\<lparr>bitmap :=
         map (\<lambda>i. source_over (smp src (cwidth c) (cheight c) (i mod cwidth c) (i div cwidth c))
                               (bitmap c ! i))
             [0..<length (bitmap c)]\<rparr>"

text \<open>Nearest-neighbour resampling, one of the filters a browser may use.\<close>

definition nearest :: sampler where
  "nearest src w h x y =
     (let sx = x * cwidth src div w; sy = y * cheight src div h; k = sy * cwidth src + sx
      in if k < length (bitmap src) then bitmap src ! k else transparent)"

text \<open>
  The promise of \<open>getMaskAsBase64\<close> rejects with a message (\<open>Inl\<close>) or resolves with the
  PNG of the mask canvas, given here by the bitmap that the PNG encodes without loss.
  \<open>has_ctx\<close> says whether \<open>getContext('2d')\<close> of the new canvas gave a context.
  \<open>drawImage\<close> raises an \<open>InvalidStateError\<close> on a source canvas of width or height
  zero; raised inside the executor of the promise, it rejects the promise.
\<close>

definition getMaskAsBase64 :: "sampler \<Rightarrow> bool \<Rightarrow> 'pt masking \<Rightarrow> string + canvas" where
  "getMaskAsBase64 smp has_ctx s =
     (case (drawingCanvas s, imageRef s) of
        (Some dc, Some (naturalWidth, naturalHeight)) \<Rightarrow>
          let maskCanvas = createCanvas naturalWidth naturalHeight in
          if \<not> has_ctx then Inl ''Could not create mask context''
          else if cwidth dc = 0 \<or> cheight dc = 0 then Inl ''InvalidStateError''
          else
            let m1 = drawImage_scaled smp dc maskCanvas;
                m2 = fillRect source_in white m1;
                m3 = fillRect destination_over black m2
            in Inr m3
      | _ \<Rightarrow> Inl ''Canvas or image not ready'')"

text \<open>What the export makes of one pixel of the scaled stroke layer (see \<open>export_pixel\<close> below).\<close>

definition mask_pixel :: "pixel \<Rightarrow> pixel" where
  "mask_pixel p = \<lparr>red = alpha p, green = alpha p, blue = alpha p, alpha = 255\<rparr>"

subsection \<open>Invariants of the history\<close>

text \<open>
  \<open>frame w h s\<close>: the layer is \<open>w\<close> by \<open>h\<close>, not empty, with one pixel for each position, the cursor
  is an index of the history, and every snapshot has the size of the layer.
  \<open>current s\<close>: the layer shows the snapshot under the cursor.
\<close>

definition frame :: "nat \<Rightarrow> nat \<Rightarrow> 'pt masking \<Rightarrow> bool" where
  "frame w h s =
     (case drawingCanvas s of
        None \<Rightarrow> False
      | Some c \<Rightarrow>
          cwidth c = w \<and> cheight c = h \<and> 0 < w \<and> 0 < h \<and> length (bitmap c) = w * h \<and>
          0 \<le> historyIndex s \<and> historyIndex s < int (length (history s)) \<and>
          list_all (\<lambda>img. iwidth img = w \<and> iheight img = h \<and> length (idata img) = w * h)
            (history s))"

definition current :: "'pt masking \<Rightarrow> bool" where
  "current s =
     (case drawingCanvas s of
        None \<Rightarrow> False
      | Some c \<Rightarrow> 0 \<le> historyIndex s \<and> nat (historyIndex s) < length (history s) \<and>
                  bitmap c = idata (history s ! nat (historyIndex s)))"

text \<open>The states a stroke passes through: only the layer, the flag and the last point differ.\<close>

definition drawing_from :: "'pt masking \<Rightarrow> canvas \<Rightarrow> 'pt masking \<Rightarrow> bool" where
  "drawing_from s c t =
     (\<exists>c' lp. t = s\<lparr>drawingCanvas := Some c', isDrawing := True, lastPoint := lp\<rparr> \<and>
        cwidth c' = cwidth c \<and> cheight c' = cheight c \<and> length (bitmap c') = length (bitmap c))"

subsection \<open>Sample states\<close>

text \<open>
  The brush colour \<open>#ef4444\<close> at full coverage and at the half coverage of an antialiased
  edge, both premultiplied.
\<close>

definition brush_red :: pixel where
  "brush_red = \<lparr>red = 239, green = 68, blue = 68, alpha = 255\<rparr>"

definition edge_red :: pixel where
  "edge_red = \<lparr>red = 120, green = 34, blue = 34, alpha = 128\<rparr>"

text \<open>A two-pixel layer over a two-pixel image: one pixel inside a stroke, one on its edge.\<close>

definition edge_canvas :: canvas where
  "edge_canvas = \<lparr>cwidth = 2, cheight = 1, bitmap = [brush_red, edge_red]\<rparr>"

definition edge_state :: "(int \<times> int) masking" where
  "edge_state =
     \<lparr>drawingCanvas = Some edge_canvas,
      imageRef = Some (2, 1),
      history = [\<lparr>iwidth = 2, iheight = 1, idata = [transparent, transparent]\<rparr>,
                 \<lparr>iwidth = 2, iheight = 1, idata = [brush_red, edge_red]\<rparr>],
      historyIndex = 1, isDrawing = False, lastPoint = None, brushSize = 30,
      reports = [(False, False), (True, False)]\<rparr>"

text \<open>A rasteriser that paints the one pixel under the end point of the shape.\<close>

definition dab :: "(int \<times> int) rasteriser" where
  "dab b sh c =
     (case sh of
        Segment p q \<Rightarrow> [(nat (snd q) * cwidth c + nat (fst q), brush_red)]
      | Disc p \<Rightarrow> [(nat (snd p) * cwidth c + nat (fst p), brush_red)])"

section \<open>The masking canvas as the editor mounts it (MaskingCanvas.tsx, src/unnamed/part_003)\<close>

text \<open>
  \<open>drawImage\<close> lays the two canvases out over the loaded image and ends with \<open>clearMask\<close>.
  Assigning \<open>width\<close> and \<open>height\<close> gives the layer a new, transparent bitmap of that
  size. The size is computed in floating point from the container and the image; here it
  is a parameter, the pair of integers that the two assignments store. Without the image
  or without the layer the function returns at once; the container and the canvas under
  the layer, with its context, are taken to be there.
\<close>

definition drawImage :: "nat \<times> nat \<Rightarrow> 'pt masking \<Rightarrow> 'pt masking" where
  "drawImage sz s =
     (case imageRef s of
        None \<Rightarrow> s
      | Some img \<Rightarrow>
          (case drawingCanvas s of
             None \<Rightarrow> s
           | Some c \<Rightarrow> clearMask (s\<lparr>drawingCanvas := Some (createCanvas (fst sz) (snd sz))\<rparr>)))"

text \<open>
  The editor renders the component with
  \<open>onHistoryChange={(undoable, redoable) => { setCanUndo(undoable); setCanRedo(redoable); }}\<close>,
  an arrow function made anew at each render of the editor, and it enables its Undo and
  Redo buttons by the two flags. In the component \<open>updateHistoryState\<close> depends on
  \<open>onHistoryChange\<close>, \<open>saveState\<close> on \<open>updateHistoryState\<close>, \<open>clearMask\<close> on \<open>saveState\<close>,
  \<open>drawImage\<close> on \<open>clearMask\<close>, and the effect that loads the image on \<open>drawImage\<close>. So
  when the reports of a handler leave a flag changed, the editor renders again, the
  component gets a new \<open>onHistoryChange\<close>, the effect runs again, and the image, once
  loaded, is stored in \<open>imageRef\<close> and laid out by \<open>drawImage\<close>. Reports that leave both
  flags as they were cause no render.

  \<open>component\<close> is the state of the masking canvas, \<open>canUndo\<close> and \<open>canRedo\<close> are the state
  of the editor, \<open>naturalSize\<close> is the size of the image at \<open>imageUrl\<close>, and \<open>layout\<close> the
  size that \<open>drawImage\<close> computes for it in the container.
\<close>

record 'pt mounted =
  component :: "'pt masking"
  canUndo :: bool
  canRedo :: bool
  naturalSize :: "nat \<times> nat"
  layout :: "nat \<times> nat"

text \<open>The effect runs again and the image loads: \<open>imageRef.current = img; drawImage()\<close>.\<close>

definition reload :: "'pt mounted \<Rightarrow> 'pt mounted" where
  "reload m =
     m\<lparr>component := drawImage (layout m) ((component m)\<lparr>imageRef := Some (naturalSize m)\<rparr>)\<rparr>"

text \<open>
  What follows a handler, \<open>n\<close> being the number of reports made before it: the flags of
  its last report become the state of the editor; if that changes the state, the image is
  loaded again, which reports in its turn. The image is taken to load before the next
  action of the user.
\<close>

function settle :: "nat \<Rightarrow> 'pt mounted \<Rightarrow> 'pt mounted" where
  "settle n m =
     (case drop n (reports (component m)) of
        [] \<Rightarrow> m
      | r # rs \<Rightarrow>
          if last (r # rs) = (canUndo m, canRedo m) then m
          else settle (length (reports (component m)))
                 (reload (m\<lparr>canUndo := fst (last (r # rs)), canRedo := snd (last (r # rs))\<rparr>)))"
  by pat_completeness auto
termination
proof (relation "measure (\<lambda>(n, m).
    case drop n (reports (component m)) of
      [] \<Rightarrow> 0
    | r # rs \<Rightarrow> if last (r # rs) = (canUndo m, canRedo m) then 0
                else if last (r # rs) = (False, False) then 1 else 2)")
  show "wf (measure (\<lambda>(n, m :: 'pt mounted).
    case drop n (reports (component m)) of
      [] \<Rightarrow> 0
    | r # rs \<Rightarrow> if last (r # rs) = (canUndo m, canRedo m) then 0
                else if last (r # rs) = (False, False) then (1 :: nat) else 2))"
    by simp
next
  fix n and m :: "'pt mounted" and r rs
  assume d: "drop n (reports (component m)) = r # rs"
    and l: "last (r # rs) \<noteq> (canUndo m, canRedo m)"
  let ?m = "m\<lparr>canUndo := fst (last (r # rs)), canRedo := snd (last (r # rs))\<rparr>"
  have "reports (component (reload ?m)) = reports (component m) \<or>
        reports (component (reload ?m)) = reports (component m) @ [(False, False)]"
    by (simp add: reload_def drawImage_def clearMask_def saveState_def getImageData_def
        updateHistoryState_def createCanvas_def clearRect_def Let_def split: option.splits)
  then have "drop (length (reports (component m))) (reports (component (reload ?m))) = [] \<or>
             drop (length (reports (component m))) (reports (component (reload ?m))) = [(False, False)]"
    by auto
  moreover have "canUndo (reload ?m) = fst (last (r # rs))" "canRedo (reload ?m) = snd (last (r # rs))"
    by (simp_all add: reload_def)
  ultimately show "((length (reports (component m)), reload ?m), (n, m)) \<in> measure (\<lambda>(n, m).
    case drop n (reports (component m)) of
      [] \<Rightarrow> 0
    | r # rs \<Rightarrow> if last (r # rs) = (canUndo m, canRedo m) then 0
                else if last (r # rs) = (False, False) then 1 else 2)"
    using d l by (auto simp: prod_eq_iff)
qed

declare settle.simps [simp del]

text \<open>A handler of the component, run in the mounted editor.\<close>

definition wired :: "('pt masking \<Rightarrow> 'pt masking) \<Rightarrow> 'pt mounted \<Rightarrow> 'pt mounted" where
  "wired handler m =
     settle (length (reports (component m))) (m\<lparr>component := handler (component m)\<rparr>)"

text \<open>Completed strokes, one after the other.\<close>

definition strokes :: "'pt rasteriser \<Rightarrow> ('pt \<times> 'pt list) list \<Rightarrow> 'pt mounted \<Rightarrow> 'pt mounted" where
  "strokes rast sts m = foldl (\<lambda>t st. wired (stroke rast st) t) m sts"

text \<open>
  The Undo and Redo buttons of the editor: \<open>disabled={!canUndo}\<close> with
  \<open>onClick={() => maskingCanvasRef.current?.undo()}\<close>, and likewise for redo.
\<close>

definition press_undo :: "'pt mounted \<Rightarrow> 'pt mounted" where
  "press_undo m = (if canUndo m then wired undo m else m)"

definition press_redo :: "'pt mounted \<Rightarrow> 'pt mounted" where
  "press_redo m = (if canRedo m then wired redo m else m)"

text \<open>
  The editor with a two-pixel image loaded and laid out at its natural size: the layer
  blank, the history holding the blank snapshot, both buttons disabled.
\<close>

definition mounted_blank :: "(int \<times> int) mounted" where
  "mounted_blank =
     \<lparr>component =
        \<lparr>drawingCanvas = Some \<lparr>cwidth = 2, cheight = 1, bitmap = [transparent, transparent]\<rparr>,
         imageRef = Some (2, 1),
         history = [\<lparr>iwidth = 2, iheight = 1, idata = [transparent, transparent]\<rparr>],
         historyIndex = 0, isDrawing = False, lastPoint = None, brushSize = 30,
         reports = [(False, False)]\<rparr>,
      canUndo = False, canRedo = False, naturalSize = (2, 1), layout = (2, 1)\<rparr>"

section \<open>Batch generation (handleGenerate of ImageEditor.tsx and of its later variant)\<close>

subsection \<open>Strings\<close>

text \<open>\<open>String.prototype.split\<close> on a one-character separator, \<open>Array.prototype.join\<close> and an index read that yields \<open>undefined\<close> (\<open>None\<close>) out of range.\<close>

fun split_on :: "char \<Rightarrow> string \<Rightarrow> string list" where
  "split_on c [] = [[]]"
| "split_on c (x # xs) =
     (if x = c then [] # split_on c xs
      else case split_on c xs of
             y # ys \<Rightarrow> (x # y) # ys
           | [] \<Rightarrow> [[x]])"

fun join :: "string \<Rightarrow> string list \<Rightarrow> string" where
  "join sep [] = []"
| "join sep [x] = x"
| "join sep (x # y # ys) = x @ sep @ join sep (y # ys)"

definition at_index :: "'a list \<Rightarrow> nat \<Rightarrow> 'a option" where
  "at_index xs i = (if i < length xs then Some (xs ! i) else None)"

text \<open>A template literal prints \<open>undefined\<close> by name.\<close>

definition shown :: "string option \<Rightarrow> string" where
  "shown v = (case v of None \<Rightarrow> ''undefined'' | Some s \<Rightarrow> s)"

subsection \<open>Tools, images, requests and responses\<close>

datatype ToolId =
  LiveConversation | BackgroundRemover | ImageEnhancer | ImageRestoration
  | ObjectRemover | GenerativeFill | PhotoColorize | ExpandImage

record tool =
  toolId :: ToolId
  basePrompt :: string
  requiresMask :: bool

record original =
  oid :: nat
  dataUrl :: string
  fileName :: string
  fileType :: string

record generated =
  gid :: nat
  gdataUrl :: string
  gfileName :: string

datatype part = InlineData "string option" string | TextPart string

text \<open>
  The first part of the first candidate of a response carries inline data or not; the
  MIME type of inline data is optional in the service's types. A call of the service
  resolves with a response or rejects with a thrown value, which is an \<open>Error\<close> with a
  message or something else. \<open>Resolves None\<close> is a response without a first part,
  \<open>Resolves (Some None)\<close> one whose first part has no inline data.
\<close>

record inline_data =
  payload :: "string option"
  mimeType :: "string option"

datatype thrown = ErrorObject string | NotAnError

datatype api_result = Rejects thrown | Resolves "inline_data option option"

type_synonym api = "part list \<Rightarrow> api_result"

text \<open>
  The editor's state: \<open>isLoading\<close>, \<open>error\<close> and \<open>generatedImages\<close> are the React state
  cells; \<open>requests\<close> lists the calls of \<open>generateContent\<close>, each by the parts it sent.
\<close>

record editor =
  isLoading :: bool
  error :: "string option"
  generatedImages :: "generated list"
  requests :: "part list list"

text \<open>
  The mask of the request: \<open>None\<close> when \<open>maskingCanvasRef.current\<close> is null, else the
  outcome of \<open>getMaskAsBase64()\<close>, a rejection (\<open>Inl\<close>) or a data URL (\<open>Inr\<close>).
\<close>

type_synonym mask_ref = "(string + string) option"

definition isBatchMode :: "tool \<Rightarrow> bool" where
  "isBatchMode t = (toolId t = BackgroundRemover)"

definition requiresPrompt :: "tool \<Rightarrow> bool" where
  "requiresPrompt t = (toolId t = GenerativeFill)"

definition request_parts :: "tool \<Rightarrow> string \<Rightarrow> mask_ref \<Rightarrow> original \<Rightarrow> thrown + part list" where
  "request_parts t prompt mref img =
     (let base64Data = at_index (split_on CHR '','' (dataUrl img)) 1;
          imagePart = InlineData base64Data (fileType img);
          textPart = TextPart (basePrompt t @ (if prompt \<noteq> [] then '' '' @ prompt else []))
      in if requiresMask t \<and> mref \<noteq> None then
           (case mref of
              Some (Inl reason) \<Rightarrow> Inl NotAnError
            | Some (Inr maskDataUrl) \<Rightarrow>
                Inr [imagePart,
                     InlineData (at_index (split_on CHR '','' maskDataUrl) 1) ''image/png'',
                     textPart]
            | None \<Rightarrow> Inr [imagePart, textPart])
         else Inr [imagePart, textPart])"

definition processed_entry :: "original \<Rightarrow> string option \<Rightarrow> string \<Rightarrow> generated" where
  "processed_entry img newImageData newImageMime =
     (let extension = (case at_index (split_on CHR ''/'' newImageMime) 1 of
                         Some e \<Rightarrow> if e \<noteq> [] then e else ''png''
                       | None \<Rightarrow> ''png'')
      in \<lparr>gid = oid img,
          gdataUrl = ''data:'' @ newImageMime @ '';base64,'' @ shown newImageData,
          gfileName = ''processed_'' @ join ''.'' (butlast (split_on CHR ''.'' (fileName img)))
                        @ ''.'' @ extension\<rparr>)"

definition no_image_message :: "original \<Rightarrow> string" where
  "no_image_message img =
     ''Failed to process image: '' @ fileName img @ ''. No image data in response.''"

text \<open>Reading \<open>split\<close> of an undefined MIME type raises a \<open>TypeError\<close>.\<close>

definition type_error :: thrown where
  "type_error = ErrorObject ''Cannot read properties of undefined (reading split)''"

subsection \<open>The loop\<close>

text \<open>
  The body of the \<open>for\<close> loop works on the local array \<open>processedImages\<close> and the state,
  and ends normally or by a thrown value; what it did before throwing stays done.
\<close>

type_synonym loop_state = "generated list \<times> editor"

type_synonym body = "original \<Rightarrow> loop_state \<Rightarrow> loop_state \<times> thrown option"

text \<open>The body in \<open>src/components/ImageEditor.tsx\<close>: an empty result sets the error message.\<close>

definition body_editor :: "api \<Rightarrow> tool \<Rightarrow> string \<Rightarrow> mask_ref \<Rightarrow> body" where
  "body_editor service t prompt mref img acc =
     (case request_parts t prompt mref img of
        Inl e \<Rightarrow> (acc, Some e)
      | Inr parts \<Rightarrow>
          let processedImages = fst acc;
              st = (snd acc)\<lparr>requests := requests (snd acc) @ [parts]\<rparr>
          in (case service parts of
               Rejects e \<Rightarrow> ((processedImages, st), Some e)
             | Resolves firstPart \<Rightarrow>
                 (case firstPart of
                    Some (Some inl) \<Rightarrow>
                      (case mimeType inl of
                         None \<Rightarrow> ((processedImages, st), Some type_error)
                       | Some newImageMime \<Rightarrow>
                           let pushed = processedImages @ [processed_entry img (payload inl) newImageMime]
                           in ((pushed, st\<lparr>generatedImages := pushed\<rparr>), None))
                  | _ \<Rightarrow> ((processedImages, st\<lparr>error := Some (no_image_message img)\<rparr>), None))))"

text \<open>The body in the later variant (\<open>src/unnamed/part_003\<close>): an empty result throws.\<close>

definition body_variant :: "api \<Rightarrow> tool \<Rightarrow> string \<Rightarrow> mask_ref \<Rightarrow> body" where
  "body_variant service t prompt mref img acc =
     (case request_parts t prompt mref img of
        Inl e \<Rightarrow> (acc, Some e)
      | Inr parts \<Rightarrow>
          let processedImages = fst acc;
              st = (snd acc)\<lparr>requests := requests (snd acc) @ [parts]\<rparr>
          in (case service parts of
               Rejects e \<Rightarrow> ((processedImages, st), Some e)
             | Resolves firstPart \<Rightarrow>
                 (case firstPart of
                    Some (Some inl) \<Rightarrow>
                      (case mimeType inl of
                         None \<Rightarrow> ((processedImages, st), Some type_error)
                       | Some newImageMime \<Rightarrow>
                           let pushed = processedImages @ [processed_entry img (payload inl) newImageMime]
                           in ((pushed, st\<lparr>generatedImages := generatedImages st @ [last pushed]\<rparr>), None))
                  | _ \<Rightarrow> ((processedImages, st), Some (ErrorObject (no_image_message img))))))"

text \<open>\<open>for (const image of originalImages) { ...; if (!isBatchMode) break; }\<close>\<close>

fun for_images :: "body \<Rightarrow> bool \<Rightarrow> original list \<Rightarrow> loop_state \<Rightarrow> loop_state \<times> thrown option" where
  "for_images b batch [] acc = (acc, None)"
| "for_images b batch (img # rest) acc =
     (case b img acc of
        (acc', Some e) \<Rightarrow> (acc', Some e)
      | (acc', None) \<Rightarrow> if \<not> batch then (acc', None) else for_images b batch rest acc')"

definition handleGenerate :: "api \<Rightarrow> tool \<Rightarrow> string \<Rightarrow> mask_ref \<Rightarrow> original list \<Rightarrow> editor \<Rightarrow> editor" where
  "handleGenerate service t prompt mref originalImages st =
     (if originalImages = [] then st\<lparr>error := Some ''Please upload at least one image.''\<rparr>
      else if requiresPrompt t \<and> prompt = [] then
        st\<lparr>error := Some ''This tool requires a text description of what you want to do.''\<rparr>
      else
        let st0 = st\<lparr>isLoading := True, error := None, generatedImages := []\<rparr>;
            r = for_images (body_editor service t prompt mref) (isBatchMode t) originalImages ([], st0);
            st1 = snd (fst r);
            st2 = (case snd r of
                     None \<Rightarrow> st1
                   | Some err \<Rightarrow>
                       st1\<lparr>error := Some ''An error occurred during generation. Please check the console for details.''\<rparr>)
        in st2\<lparr>isLoading := False\<rparr>)"

definition handleGenerate_variant :: "api \<Rightarrow> tool \<Rightarrow> string \<Rightarrow> mask_ref \<Rightarrow> original list \<Rightarrow> editor \<Rightarrow> editor" where
  "handleGenerate_variant service t prompt mref originalImages st =
     (if originalImages = [] then st\<lparr>error := Some ''Please upload at least one image.''\<rparr>
      else if requiresPrompt t \<and> prompt = [] then
        st\<lparr>error := Some ''This tool requires a text description.''\<rparr>
      else
        let st0 = st\<lparr>isLoading := True, error := None, generatedImages := []\<rparr>;
            r = for_images (body_variant service t prompt mref) (isBatchMode t) originalImages ([], st0);
            st1 = snd (fst r);
            st2 = (case snd r of
                     None \<Rightarrow> st1
                   | Some err \<Rightarrow>
                       st1\<lparr>error := Some (case err of
                                            ErrorObject message \<Rightarrow> message
                                          | NotAnError \<Rightarrow> ''An error occurred during generation.'')\<rparr>)
        in st2\<lparr>isLoading := False\<rparr>)"


subsection \<open>What the service answered\<close>

text \<open>
  The parts sent for an image (none when the mask export rejects), and the three ways a
  call can end for the loop: with image data, without image data, or by a thrown value.
\<close>

definition sent :: "tool \<Rightarrow> string \<Rightarrow> mask_ref \<Rightarrow> original \<Rightarrow> part list" where
  "sent t prompt mref img = (case request_parts t prompt mref img of Inr ps \<Rightarrow> ps | Inl e \<Rightarrow> [])"

definition mask_ready :: "tool \<Rightarrow> mask_ref \<Rightarrow> bool" where
  "mask_ready t mref = (case mref of Some (Inl reason) \<Rightarrow> \<not> requiresMask t | _ \<Rightarrow> True)"

datatype answer = WithImage "string option" string | WithoutImage | Failing

definition answer_of :: "api_result \<Rightarrow> answer" where
  "answer_of r =
     (case r of
        Rejects e \<Rightarrow> Failing
      | Resolves firstPart \<Rightarrow>
          (case firstPart of
             Some (Some inl) \<Rightarrow>
               (case mimeType inl of Some m \<Rightarrow> WithImage (payload inl) m | None \<Rightarrow> Failing)
           | _ \<Rightarrow> WithoutImage))"

definition entries_of :: "api \<Rightarrow> tool \<Rightarrow> string \<Rightarrow> mask_ref \<Rightarrow> original list \<Rightarrow> generated list" where
  "entries_of service t prompt mref imgs =
     concat (map (\<lambda>img. case answer_of (service (sent t prompt mref img)) of
                          WithImage d m \<Rightarrow> [processed_entry img d m]
                        | _ \<Rightarrow> []) imgs)"

definition has_image :: "api \<Rightarrow> tool \<Rightarrow> string \<Rightarrow> mask_ref \<Rightarrow> original \<Rightarrow> bool" where
  "has_image service t prompt mref img =
     (case answer_of (service (sent t prompt mref img)) of WithImage d m \<Rightarrow> True | _ \<Rightarrow> False)"

definition is_empty :: "api \<Rightarrow> tool \<Rightarrow> string \<Rightarrow> mask_ref \<Rightarrow> original \<Rightarrow> bool" where
  "is_empty service t prompt mref img = (answer_of (service (sent t prompt mref img)) = WithoutImage)"

definition returns :: "api \<Rightarrow> tool \<Rightarrow> string \<Rightarrow> mask_ref \<Rightarrow> original \<Rightarrow> bool" where
  "returns service t prompt mref img = (answer_of (service (sent t prompt mref img)) \<noteq> Failing)"

text \<open>The message left in \<open>error\<close> by a run of the loop of \<open>ImageEditor.tsx\<close>: that of the last image without data.\<close>

definition last_message :: "api \<Rightarrow> tool \<Rightarrow> string \<Rightarrow> mask_ref \<Rightarrow> original list \<Rightarrow> string option \<Rightarrow> string option" where
  "last_message service t prompt mref imgs before =
     (case filter (is_empty service t prompt mref) imgs of
        [] \<Rightarrow> before
      | e # es \<Rightarrow> Some (no_image_message (last (e # es))))"

subsection \<open>Samples\<close>

definition remover :: tool where
  "remover = \<lparr>toolId = BackgroundRemover,
              basePrompt = ''Remove the background from this image.'',
              requiresMask = False\<rparr>"

definition img_a :: original where
  "img_a = \<lparr>oid = 1, dataUrl = ''data:image/png;base64,QUFB'', fileName = ''a.png'', fileType = ''image/png''\<rparr>"

definition img_b :: original where
  "img_b = \<lparr>oid = 2, dataUrl = ''data:image/png;base64,QkJC'', fileName = ''b.png'', fileType = ''image/png''\<rparr>"

definition img_c :: original where
  "img_c = \<lparr>oid = 3, dataUrl = ''data:image/png;base64,Q0ND'', fileName = ''c.png'', fileType = ''image/png''\<rparr>"

text \<open>A service that has no image for \<open>img_b\<close> and answers every other request with a PNG.\<close>

definition demo_service :: api where
  "demo_service ps =
     (if ps = sent remover [] None img_b then Resolves None
      else Resolves (Some (Some \<lparr>payload = Some ''UE5H'', mimeType = Some ''image/png''\<rparr>)))"

definition fresh_editor :: editor where
  "fresh_editor = \<lparr>isLoading = False, error = None, generatedImages = [], requests = []\<rparr>"

section \<open>The live conversation (useLiveConversation.ts)\<close>

subsection \<open>State\<close>

datatype ConversationStatus = Idle | Connecting | Active | Stopped | Error

datatype Speaker = User | Model

record TranscriptEntry =
  speaker :: Speaker
  words :: string

text \<open>
  What becomes of the promise returned by \<open>connect\<close> once it settles: it resolves with a
  session, whose \<open>close()\<close> returns (\<open>True\<close>) or throws (\<open>False\<close>), or it rejects. When
  it settles, and whether it does, is for the run to say.
\<close>

datatype session_promise = Session bool | NoSession

text \<open>
  What the hook does to the browser and to the service, in order: the calls on the
  capture resources, on the session and on the playback sources, the lines written with
  \<open>console.error\<close>, and the exceptions that leave a callback uncaught. A playback source
  is named by the number of its creation.
\<close>

datatype effect =
  TrackStop | ProcessorDisconnect | StreamSourceDisconnect | InputContextClose | OutputContextClose
  | SessionClose | ConsoleError | SourceStart nat real | SourceStop nat | Uncaught

text \<open>
  The React state (\<open>status\<close>, \<open>transcript\<close>, and \<open>error\<close> under the name
  \<open>errorText\<close>) and the refs of the hook. A ref to
  a browser object is \<open>True\<close> when it is set and \<open>False\<close> when it is null.
  \<open>audioSourcesRef\<close> is the set of scheduled sources in insertion order, the order in
  which a JavaScript \<open>Set\<close> is iterated; \<open>created\<close> counts the sources made so far.
  \<open>connections\<close> has one entry for each call of \<open>connect\<close>, in order: \<open>Some c\<close> while the
  connection is live and holds the callbacks it was given, \<open>c\<close> being the value of \<open>status\<close>
  that these closures captured, the one \<open>startConversation\<close> was called with; \<open>None\<close> once
  it has closed. \<open>starting\<close> lists the calls of \<open>startConversation\<close> suspended at
  \<open>await navigator.mediaDevices.getUserMedia\<close>, each with the value of \<open>status\<close> it was
  called with; \<open>awaiting\<close> lists the calls of \<open>stopConversation\<close> suspended at their
  \<open>await\<close>, each with the promise it waits for.
\<close>

record conversation =
  status :: ConversationStatus
  transcript :: "TranscriptEntry list"
  errorText :: "string option"
  sessionPromiseRef :: "session_promise option"
  inputAudioContextRef :: bool
  outputAudioContextRef :: bool
  scriptProcessorRef :: bool
  mediaStreamSourceRef :: bool
  mediaStreamRef :: bool
  currentInputTranscriptionRef :: string
  currentOutputTranscriptionRef :: string
  nextStartTimeRef :: real
  audioSourcesRef :: "nat list"
  created :: nat
  connections :: "ConversationStatus option list"
  starting :: "ConversationStatus list"
  awaiting :: "session_promise list"
  effects :: "effect list"

definition initial :: conversation where
  "initial =
     \<lparr>status = Idle, transcript = [], errorText = None, sessionPromiseRef = None,
      inputAudioContextRef = False, outputAudioContextRef = False, scriptProcessorRef = False,
      mediaStreamSourceRef = False, mediaStreamRef = False,
      currentInputTranscriptionRef = [], currentOutputTranscriptionRef = [],
      nextStartTimeRef = 0, audioSourcesRef = [], created = 0, connections = [], starting = [],
      awaiting = [],
      effects = []\<rparr>"

definition emit :: "effect list \<Rightarrow> conversation \<Rightarrow> conversation" where
  "emit es s = s\<lparr>effects := effects s @ es\<rparr>"

subsection \<open>Stopping\<close>

definition stopAudioProcessing :: "conversation \<Rightarrow> conversation" where
  "stopAudioProcessing s =
     (emit ((if mediaStreamRef s then [TrackStop] else []) @
            (if scriptProcessorRef s then [ProcessorDisconnect] else []) @
            (if mediaStreamSourceRef s then [StreamSourceDisconnect] else []) @
            (if inputAudioContextRef s then [InputContextClose] else []) @
            (if outputAudioContextRef s then [OutputContextClose] else [])) s)
       \<lparr>scriptProcessorRef := False, mediaStreamSourceRef := False,
        inputAudioContextRef := False, outputAudioContextRef := False, mediaStreamRef := False\<rparr>"

text \<open>\<open>for (const source of audioSourcesRef.current.values()) source.stop(); clear(); nextStartTimeRef.current = 0\<close>\<close>

definition stop_sources :: "conversation \<Rightarrow> conversation" where
  "stop_sources s =
     (emit (map SourceStop (audioSourcesRef s)) s)\<lparr>audioSourcesRef := [], nextStartTimeRef := 0\<rparr>"

text \<open>
  \<open>stopConversation\<close> is an \<open>async\<close> function with one \<open>await\<close>, reached when
  \<open>sessionPromiseRef\<close> holds a promise. \<open>stopConversation_sync\<close> is the call up to that
  point: the status is set, the capture resources are released and, with no promise in
  the ref, the sources are stopped and the call is over; with a promise, the call is
  suspended on it. \<open>stopConversation_settled\<close> is the rest of the call, run when the promise
  has settled as \<open>p\<close>: \<open>close()\<close> is called on the session, what the \<open>try\<close> block throws is
  logged, the ref is cleared and the sources are stopped. Other handlers may run between
  the two.
\<close>

definition stopConversation_sync :: "conversation \<Rightarrow> conversation" where
  "stopConversation_sync s =
     (let s1 = stopAudioProcessing (s\<lparr>status := Stopped\<rparr>)
      in case sessionPromiseRef s1 of
           None \<Rightarrow> stop_sources s1
         | Some p \<Rightarrow> s1\<lparr>awaiting := awaiting s1 @ [p]\<rparr>)"

definition stopConversation_settled :: "session_promise \<Rightarrow> conversation \<Rightarrow> conversation" where
  "stopConversation_settled p s =
     stop_sources
       ((emit (case p of
                 Session True \<Rightarrow> [SessionClose]
               | Session False \<Rightarrow> [SessionClose, ConsoleError]
               | NoSession \<Rightarrow> [ConsoleError]) s)
          \<lparr>sessionPromiseRef := None\<rparr>)"

text \<open>The suspended call at position \<open>i\<close> goes on, its promise having settled.\<close>

definition resume_stop :: "nat \<Rightarrow> conversation \<Rightarrow> conversation" where
  "resume_stop i s =
     (if i < length (awaiting s)
      then stopConversation_settled (awaiting s ! i)
             (s\<lparr>awaiting := take i (awaiting s) @ drop (Suc i) (awaiting s)\<rparr>)
      else s)"

subsection \<open>Starting\<close>

text \<open>
  \<open>startConversation\<close> is an \<open>async\<close> function with one \<open>await\<close>, of \<open>getUserMedia\<close>.
  \<open>startConversation_sync\<close> is the call up to that point: nothing while the status is
  \<open>active\<close> or \<open>connecting\<close>; otherwise the status, the error, the transcript and the two
  buffers are set, and the call is suspended. \<open>startConversation_settled\<close> is the rest of
  the call, by how far the \<open>try\<close> block gets: \<open>getUserMedia\<close> rejects, one of the two
  \<open>AudioContext\<close> constructors throws, \<open>connect\<close> throws, or \<open>connect\<close> returns the session
  promise. The callbacks given to \<open>connect\<close> are closures of the call, so the \<open>status\<close>
  they read is the one the call was made with. Other handlers may run between the two
  parts.
\<close>

datatype start_env = MicDenied | InputContextFails | OutputContextFails | ConnectThrows
  | Connects session_promise

definition start_failed :: "conversation \<Rightarrow> conversation" where
  "start_failed s =
     (emit [ConsoleError] s)
       \<lparr>errorText := Some ''Could not access microphone or start session.'', status := Error\<rparr>"

definition startConversation_sync :: "conversation \<Rightarrow> conversation" where
  "startConversation_sync s =
     (if status s = Active \<or> status s = Connecting then s
      else s\<lparr>status := Connecting, errorText := None, transcript := [],
             currentInputTranscriptionRef := [], currentOutputTranscriptionRef := [],
             starting := starting s @ [status s]\<rparr>)"

definition startConversation_settled ::
    "start_env \<Rightarrow> ConversationStatus \<Rightarrow> conversation \<Rightarrow> conversation" where
  "startConversation_settled env captured s =
     (case env of
        MicDenied \<Rightarrow> start_failed s
      | InputContextFails \<Rightarrow> start_failed (s\<lparr>mediaStreamRef := True\<rparr>)
      | OutputContextFails \<Rightarrow>
          start_failed (s\<lparr>mediaStreamRef := True, inputAudioContextRef := True\<rparr>)
      | ConnectThrows \<Rightarrow>
          start_failed (s\<lparr>mediaStreamRef := True, inputAudioContextRef := True,
                           outputAudioContextRef := True\<rparr>)
      | Connects p \<Rightarrow>
          s\<lparr>mediaStreamRef := True, inputAudioContextRef := True,
             outputAudioContextRef := True, sessionPromiseRef := Some p,
             connections := connections s @ [Some captured]\<rparr>)"

text \<open>The suspended call at position \<open>i\<close> goes on, \<open>getUserMedia\<close> having settled.\<close>

definition resume_start :: "nat \<Rightarrow> start_env \<Rightarrow> conversation \<Rightarrow> conversation" where
  "resume_start i env s =
     (if i < length (starting s)
      then startConversation_settled env (starting s ! i)
             (s\<lparr>starting := take i (starting s) @ drop (Suc i) (starting s)\<rparr>)
      else s)"

subsection \<open>The callbacks of the session\<close>

text \<open>
  \<open>onopen\<close> reads \<open>inputAudioContextRef.current!\<close>; when the ref is null the read of
  \<open>createMediaStreamSource\<close> raises a \<open>TypeError\<close> after the status was set.
\<close>

definition onopen :: "conversation \<Rightarrow> conversation" where
  "onopen s =
     (let s1 = s\<lparr>status := Active\<rparr>
      in if inputAudioContextRef s1
         then s1\<lparr>mediaStreamSourceRef := True, scriptProcessorRef := True\<rparr>
         else emit [Uncaught] s1)"

text \<open>
  An inbound message. A transcription object may lack its text, which \<open>+=\<close> then appends
  as \<open>undefined\<close>. The model turn may lack its parts, and a part its inline data.
\<close>

datatype model_turn = ModelTurn "inline_data option list option"

record server_content =
  inputTranscription :: "string option option"
  outputTranscription :: "string option option"
  turnComplete :: bool
  modelTurn :: "model_turn option"
  interrupted :: bool

record message =
  serverContent :: "server_content option"

text \<open>
  \<open>String.prototype.trim\<close>. A character stands for a code unit below 256, of which tab,
  line feed, vertical tab, form feed, carriage return, space and no-break space are white
  space.
\<close>

definition is_space :: "char \<Rightarrow> bool" where
  "is_space c = (c \<in> set [CHR 0x09, CHR 0x0A, CHR 0x0B, CHR 0x0C, CHR 0x0D, CHR '' '', CHR 0xA0])"

definition trim :: "string \<Rightarrow> string" where
  "trim s = rev (dropWhile is_space (rev (dropWhile is_space s)))"

text \<open>
  \<open>message.serverContent?.modelTurn?.parts[0]?.inlineData.data\<close>: the data, \<open>undefined\<close>
  (\<open>Inr None\<close>), or a \<open>TypeError\<close> (\<open>Inl ()\<close>) where \<open>parts\<close> or \<open>inlineData\<close> is missing.
\<close>

definition audioData_of :: "message \<Rightarrow> unit + string option" where
  "audioData_of m =
     (case serverContent m of
        None \<Rightarrow> Inr None
      | Some sc \<Rightarrow>
          (case modelTurn sc of
             None \<Rightarrow> Inr None
           | Some (ModelTurn None) \<Rightarrow> Inl ()
           | Some (ModelTurn (Some [])) \<Rightarrow> Inr None
           | Some (ModelTurn (Some (None # ps))) \<Rightarrow> Inl ()
           | Some (ModelTurn (Some (Some inl # ps))) \<Rightarrow> Inr (payload inl)))"

definition append_transcriptions :: "message \<Rightarrow> conversation \<Rightarrow> conversation" where
  "append_transcriptions m s =
     (case serverContent m of
        None \<Rightarrow> s
      | Some sc \<Rightarrow>
          let s1 = (case inputTranscription sc of
                      None \<Rightarrow> s
                    | Some t \<Rightarrow> s\<lparr>currentInputTranscriptionRef :=
                                     currentInputTranscriptionRef s @ shown t\<rparr>)
          in (case outputTranscription sc of
                None \<Rightarrow> s1
              | Some t \<Rightarrow> s1\<lparr>currentOutputTranscriptionRef :=
                               currentOutputTranscriptionRef s1 @ shown t\<rparr>))"

definition complete_turn :: "conversation \<Rightarrow> conversation" where
  "complete_turn s =
     (let userInput = trim (currentInputTranscriptionRef s);
          modelOutput = trim (currentOutputTranscriptionRef s);
          newEntries = (if userInput \<noteq> [] then [\<lparr>speaker = User, words = userInput\<rparr>] else []) @
                       (if modelOutput \<noteq> [] then [\<lparr>speaker = Model, words = modelOutput\<rparr>] else []);
          s1 = (if length newEntries > 0 then s\<lparr>transcript := transcript s @ newEntries\<rparr> else s)
      in s1\<lparr>currentInputTranscriptionRef := [], currentOutputTranscriptionRef := []\<rparr>)"

text \<open>
  Scheduling one chunk. \<open>now\<close> is \<open>audioContext.currentTime\<close> and \<open>duration\<close> the length
  of the decoded buffer; the decoder (\<open>decodeAudioData\<close> of the utilities) is a parameter
  of the model.
\<close>

definition schedule_chunk :: "real \<Rightarrow> real \<Rightarrow> conversation \<Rightarrow> conversation" where
  "schedule_chunk now duration s =
     (let start = max (nextStartTimeRef s) now;
          source = created s
      in (emit [SourceStart source start] s)
           \<lparr>nextStartTimeRef := start + duration,
            audioSourcesRef := audioSourcesRef s @ [source],
            created := Suc (created s)\<rparr>)"

definition onmessage :: "(string \<Rightarrow> real) \<Rightarrow> message \<Rightarrow> real \<Rightarrow> conversation \<Rightarrow> conversation" where
  "onmessage decoded m now s =
     (let s1 = append_transcriptions m s;
          s2 = (case serverContent m of
                  None \<Rightarrow> s1
                | Some sc \<Rightarrow> if turnComplete sc then complete_turn s1 else s1)
      in case audioData_of m of
           Inl u \<Rightarrow> emit [Uncaught] s2
         | Inr audioData \<Rightarrow>
             let s3 = (case audioData of
                         None \<Rightarrow> s2
                       | Some d \<Rightarrow>
                           if d \<noteq> [] \<and> outputAudioContextRef s2
                           then schedule_chunk now (decoded d) s2 else s2)
             in (case serverContent m of
                   None \<Rightarrow> s3
                 | Some sc \<Rightarrow> if interrupted sc then stop_sources s3 else s3))"

text \<open>\<open>onerror\<close> calls \<open>stopConversation\<close> and does not wait for it.\<close>

definition onerror :: "conversation \<Rightarrow> conversation" where
  "onerror s =
     stopConversation_sync
       ((emit [ConsoleError] s)
          \<lparr>errorText := Some ''An error occurred with the conversation.'', status := Error\<rparr>)"

text \<open>\<open>onclose\<close> tests the \<open>status\<close> its closure captured, not the current one.\<close>

definition onclose :: "ConversationStatus \<Rightarrow> conversation \<Rightarrow> conversation" where
  "onclose captured s =
     (if captured \<noteq> Stopped then stopAudioProcessing (s\<lparr>status := Idle\<rparr>) else s)"

text \<open>The \<open>ended\<close> listener of a source removes it from the set.\<close>

definition onended :: "nat \<Rightarrow> conversation \<Rightarrow> conversation" where
  "onended source s = s\<lparr>audioSourcesRef := removeAll source (audioSourcesRef s)\<rparr>"

subsection \<open>Runs\<close>

text \<open>
  The events of a run: the two user actions; a suspended call of \<open>startConversation\<close> or
  of \<open>stopConversation\<close> going on; the \<open>ended\<close> event of a source; and the callbacks of
  the connection with a given number, which run only while that connection is live. Each
  call of \<open>connect\<close> was given closures of its own, so \<open>onclose\<close> tests the status that the
  closures of its own connection captured.
\<close>

datatype event =
  Start | Stop | ResumeStart nat start_env | ResumeStop nat
  | Open nat | Message nat message real | SessionError nat | Close nat | Ended nat

definition live :: "nat \<Rightarrow> conversation \<Rightarrow> ConversationStatus option" where
  "live k s = (if k < length (connections s) then connections s ! k else None)"

definition step :: "(string \<Rightarrow> real) \<Rightarrow> conversation \<Rightarrow> event \<Rightarrow> conversation" where
  "step decoded s ev =
     (case ev of
        Start \<Rightarrow> startConversation_sync s
      | Stop \<Rightarrow> stopConversation_sync s
      | ResumeStart i env \<Rightarrow> resume_start i env s
      | ResumeStop i \<Rightarrow> resume_stop i s
      | Ended source \<Rightarrow> onended source s
      | Open k \<Rightarrow> (case live k s of None \<Rightarrow> s | Some c \<Rightarrow> onopen s)
      | Message k m now \<Rightarrow>
          (case live k s of None \<Rightarrow> s | Some c \<Rightarrow> onmessage decoded m now s)
      | SessionError k \<Rightarrow> (case live k s of None \<Rightarrow> s | Some c \<Rightarrow> onerror s)
      | Close k \<Rightarrow>
          (case live k s of
             None \<Rightarrow> s
           | Some c \<Rightarrow> (onclose c s)\<lparr>connections := (connections s)[k := None]\<rparr>))"

definition run :: "(string \<Rightarrow> real) \<Rightarrow> event list \<Rightarrow> conversation \<Rightarrow> conversation" where
  "run decoded evs s = foldl (step decoded) s evs"

text \<open>The messages of a list, delivered in order, each with the clock at its arrival.\<close>

definition receive :: "(string \<Rightarrow> real) \<Rightarrow> (message \<times> real) list \<Rightarrow> conversation \<Rightarrow> conversation" where
  "receive decoded ms s = foldl (\<lambda>t (m, now). onmessage decoded m now t) s ms"

subsection \<open>What a message carries\<close>

definition input_text :: "message \<Rightarrow> string" where
  "input_text m =
     (case serverContent m of
        None \<Rightarrow> []
      | Some sc \<Rightarrow> (case inputTranscription sc of None \<Rightarrow> [] | Some t \<Rightarrow> shown t))"

definition output_text :: "message \<Rightarrow> string" where
  "output_text m =
     (case serverContent m of
        None \<Rightarrow> []
      | Some sc \<Rightarrow> (case outputTranscription sc of None \<Rightarrow> [] | Some t \<Rightarrow> shown t))"

definition turn_done :: "message \<Rightarrow> bool" where
  "turn_done m = (case serverContent m of None \<Rightarrow> False | Some sc \<Rightarrow> turnComplete sc)"

definition is_interrupted :: "message \<Rightarrow> bool" where
  "is_interrupted m = (case serverContent m of None \<Rightarrow> False | Some sc \<Rightarrow> interrupted sc)"

text \<open>The entries a completed turn commits, from the two buffers.\<close>

definition turn_entries :: "string \<Rightarrow> string \<Rightarrow> TranscriptEntry list" where
  "turn_entries user_buffer model_buffer =
     (if trim user_buffer = [] then [] else [\<lparr>speaker = User, words = trim user_buffer\<rparr>]) @
     (if trim model_buffer = [] then [] else [\<lparr>speaker = Model, words = trim model_buffer\<rparr>])"

subsection \<open>Sample messages\<close>

definition no_content :: server_content where
  "no_content = \<lparr>inputTranscription = None, outputTranscription = None, turnComplete = False,
                 modelTurn = None, interrupted = False\<rparr>"

definition input_msg :: "string \<Rightarrow> message" where
  "input_msg t = \<lparr>serverContent = Some (no_content\<lparr>inputTranscription := Some (Some t)\<rparr>)\<rparr>"

definition output_msg :: "string \<Rightarrow> message" where
  "output_msg t = \<lparr>serverContent = Some (no_content\<lparr>outputTranscription := Some (Some t)\<rparr>)\<rparr>"

definition turn_complete_msg :: message where
  "turn_complete_msg = \<lparr>serverContent = Some (no_content\<lparr>turnComplete := True\<rparr>)\<rparr>"

definition audio_msg :: "string \<Rightarrow> message" where
  "audio_msg d =
     \<lparr>serverContent = Some (no_content\<lparr>modelTurn :=
        Some (ModelTurn (Some [Some \<lparr>payload = Some d, mimeType = Some ''audio/pcm;rate=24000''\<rparr>]))\<rparr>)\<rparr>"

subsection \<open>Playback scheduling, as specified and as observed\<close>

text \<open>
  The schedule in the words of the specification: each chunk starts at the maximum of
  the cursor and the clock at its arrival, and the cursor moves to that start plus the
  duration of the chunk. A chunk is given by the clock at its arrival and its duration.
\<close>

fun spec_schedule :: "real \<Rightarrow> (real \<times> real) list \<Rightarrow> real list" where
  "spec_schedule cursor [] = []"
| "spec_schedule cursor ((clock, duration) # chunks) =
     max cursor clock # spec_schedule (max cursor clock + duration) chunks"

fun spec_cursor :: "real \<Rightarrow> (real \<times> real) list \<Rightarrow> real" where
  "spec_cursor cursor [] = cursor"
| "spec_cursor cursor ((clock, duration) # chunks) = spec_cursor (max cursor clock + duration) chunks"

text \<open>The start times given to \<open>source.start\<close>, in the order of the calls.\<close>

definition starts_of :: "effect list \<Rightarrow> real list" where
  "starts_of es = concat (map (\<lambda>e. case e of SourceStart source t \<Rightarrow> [t] | _ \<Rightarrow> []) es)"

definition stops_of :: "effect list \<Rightarrow> nat list" where
  "stops_of es = concat (map (\<lambda>e. case e of SourceStop source \<Rightarrow> [source] | _ \<Rightarrow> []) es)"

text \<open>The audio data of a message, empty when it has none.\<close>

definition chunk_of :: "message \<Rightarrow> string" where
  "chunk_of m = (case audioData_of m of Inr (Some d) \<Rightarrow> d | _ \<Rightarrow> [])"

definition plays :: "message \<Rightarrow> bool" where
  "plays m = (chunk_of m \<noteq> [] \<and> \<not> is_interrupted m)"

text \<open>The exceptions that left a callback uncaught, and the state with every resource released.\<close>

definition uncaught_of :: "effect list \<Rightarrow> nat" where
  "uncaught_of es = length (filter (\<lambda>e. e = Uncaught) es)"

definition released :: "conversation \<Rightarrow> bool" where
  "released s =
     (\<not> mediaStreamRef s \<and> \<not> scriptProcessorRef s \<and> \<not> mediaStreamSourceRef s \<and>
      \<not> inputAudioContextRef s \<and> \<not> outputAudioContextRef s \<and> sessionPromiseRef s = None)"

subsection \<open>Sample conversations\<close>

text \<open>
  A turn that ends with padded text, a conversation with text pending, a conversation
  just connected, and a decoder that gives a tenth of a second for each character.
\<close>

definition padded_turn :: message where
  "padded_turn =
     \<lparr>serverContent = Some (no_content\<lparr>inputTranscription := Some (Some ''ok  ''),
                                         turnComplete := True\<rparr>)\<rparr>"

definition listening :: conversation where
  "listening = initial\<lparr>status := Active, currentInputTranscriptionRef := ''  all '',
                       currentOutputTranscriptionRef := [CHR 0x0A, CHR '' '']\<rparr>"

definition connected :: conversation where
  "connected =
     run (\<lambda>d. 0) [Start, ResumeStart 0 (Connects (Session True)), Open 0] initial"

definition tenths :: "string \<Rightarrow> real" where
  "tenths d = real (length d) / 10"

text \<open>
  The user's actions, and the state at rest: no live connection and no call of
  \<open>startConversation\<close> suspended.
\<close>

fun user_action :: "event \<Rightarrow> bool" where
  "user_action Start = True"
| "user_action Stop = True"
| "user_action ev = False"

definition at_rest :: "conversation \<Rightarrow> bool" where
  "at_rest s = (list_all (\<lambda>c. c = None) (connections s) \<and> starting s = [])"

text \<open>The ways in which a start fails.\<close>

fun fails :: "start_env \<Rightarrow> bool" where
  "fails (Connects p) = False"
| "fails env = True"

section \<open>Properties of the mask export\<close>

lemma mul8_255: "mul8 255 y = y"
  by (simp add: mul8_def)

lemma mul8_0: "mul8 0 y = 0"
  by (simp add: mul8_def)

lemma export_pixel: "destination_over black (source_in white p) = mask_pixel p"
  by (simp add: destination_over_def source_in_def white_def black_def mul8_255 mul8_0
      mask_pixel_def)

lemma source_over_transparent: "source_over p transparent = p"
  by (simp add: source_over_def transparent_def mul8_def)

text \<open>
  With the layer and the image present, the export resolves. The mask has the natural
  size of the image, whatever the size of the layer, and each of its pixels is opaque
  with the alpha of the scaled layer as its grey level: white where the layer is opaque,
  black where it is transparent, grey in between.
\<close>

lemma getMaskAsBase64_resolves:
  assumes "drawingCanvas s = Some dc" and "imageRef s = Some (w, h)"
    and "0 < cwidth dc" and "0 < cheight dc"
  shows "getMaskAsBase64 smp True s =
           Inr \<lparr>cwidth = w, cheight = h,
                bitmap = map (\<lambda>i. mask_pixel (smp dc w h (i mod w) (i div w))) [0..<w * h]\<rparr>"
  using assms
  by (simp add: getMaskAsBase64_def createCanvas_def drawImage_scaled_def fillRect_def
      export_pixel source_over_transparent)

lemma mask_pixel_white: "mask_pixel p = white \<longleftrightarrow> alpha p = 255"
  by (auto simp: mask_pixel_def white_def)

lemma mask_pixel_black: "mask_pixel p = black \<longleftrightarrow> alpha p = 0"
  by (auto simp: mask_pixel_def black_def)

text \<open>
  C1. The export of a layer with an antialiased edge pixel is not two-coloured: the edge
  pixel, half covered by the brush, comes out as the opaque grey (128, 128, 128), which
  is neither white nor black. The size of the mask is the natural size of the image.
\<close>

theorem getMaskAsBase64_grey_edge:
  "getMaskAsBase64 nearest True edge_state =
     Inr \<lparr>cwidth = 2, cheight = 1,
          bitmap = [white, \<lparr>red = 128, green = 128, blue = 128, alpha = 255\<rparr>]\<rparr>
   \<and> \<lparr>red = 128, green = 128, blue = 128, alpha = 255\<rparr> \<noteq> white
   \<and> \<lparr>red = 128, green = 128, blue = 128, alpha = 255\<rparr> \<noteq> black"
  by (simp add: getMaskAsBase64_resolves [where dc = edge_canvas and w = 2 and h = 1]
      edge_state_def edge_canvas_def nearest_def mask_pixel_def brush_red_def edge_red_def
      white_def black_def upt_conv_Cons)

section \<open>Properties of the edit history\<close>

lemma clearMask_history:
  assumes "drawingCanvas s = Some c" and "0 < cwidth c" and "0 < cheight c"
  shows "history (clearMask s) = [snapshot (clearRect c)]"
    and "historyIndex (clearMask s) = 0"
    and "drawingCanvas (clearMask s) = Some (clearRect c)"
    and "reports (clearMask s) = reports s @ [(False, False)]"
  using assms
  by (simp_all add: clearMask_def saveState_def getImageData_def clearRect_def
      updateHistoryState_def Let_def)

text \<open>
  C7. After \<open>clearMask\<close> on an initialised canvas (one that has its 2D context and a
  bitmap of positive width and height), the history holds exactly
  one entry, the snapshot of the blank layer; the cursor is 0; and the flags reported to
  \<open>onHistoryChange\<close> are \<open>(cursor > 0, cursor < length - 1)\<close>, which is
  \<open>(False, False)\<close>.
\<close>

theorem clearMask_single_entry:
  assumes "drawingCanvas s = Some c" and "0 < cwidth c" and "0 < cheight c"
  shows "length (history (clearMask s)) = 1
       \<and> history (clearMask s) ! 0 = snapshot (clearRect c)
       \<and> idata (snapshot (clearRect c)) = replicate (length (bitmap c)) transparent
       \<and> historyIndex (clearMask s) = 0
       \<and> reports (clearMask s) =
           reports s @ [(historyIndex (clearMask s) > 0,
                         historyIndex (clearMask s) < int (length (history (clearMask s))) - 1)]
       \<and> last (reports (clearMask s)) = (False, False)"
  using clearMask_history [OF assms]
  by (simp add: snapshot_def clearRect_def map_replicate_const)

theorem clearMask_single_entry_witness:
  "drawingCanvas edge_state = Some edge_canvas
   \<and> 0 < cwidth edge_canvas \<and> 0 < cheight edge_canvas
   \<and> length (history edge_state) = 2
   \<and> length (history (clearMask edge_state)) = 1
   \<and> idata (history (clearMask edge_state) ! 0) = [transparent, transparent]
   \<and> historyIndex (clearMask edge_state) = 0
   \<and> last (reports (clearMask edge_state)) = (False, False)"
  using clearMask_single_entry [of edge_state edge_canvas]
  by (simp add: edge_state_def edge_canvas_def snapshot_def clearRect_def)

subsection \<open>Restoring a snapshot\<close>

lemma putImageData_whole:
  assumes "iwidth img = cwidth c" and "iheight img = cheight c"
    and "length (idata img) = cwidth c * cheight c" and "length (bitmap c) = cwidth c * cheight c"
  shows "putImageData img c = c\<lparr>bitmap := idata img\<rparr>"
proof -
  let ?w = "cwidth c" and ?h = "cheight c"
  have "map (\<lambda>i. let x = i mod ?w; y = i div ?w
                  in if x < iwidth img \<and> y < iheight img \<and> y * iwidth img + x < length (idata img)
                     then idata img ! (y * iwidth img + x)
                     else bitmap c ! i) [0..<length (bitmap c)] = idata img"
  proof (rule nth_equalityI)
    show "length (map (\<lambda>i. let x = i mod ?w; y = i div ?w
                  in if x < iwidth img \<and> y < iheight img \<and> y * iwidth img + x < length (idata img)
                     then idata img ! (y * iwidth img + x)
                     else bitmap c ! i) [0..<length (bitmap c)]) = length (idata img)"
      using assms by simp
  next
    fix i
    assume "i < length (map (\<lambda>i. let x = i mod ?w; y = i div ?w
                  in if x < iwidth img \<and> y < iheight img \<and> y * iwidth img + x < length (idata img)
                     then idata img ! (y * iwidth img + x)
                     else bitmap c ! i) [0..<length (bitmap c)])"
    then have i: "i < ?w * ?h" using assms by simp
    then have w: "0 < ?w" by (cases "?w = 0") auto
    have x: "i mod ?w < ?w" using w by simp
    have y: "i div ?w < ?h" using i w by (simp add: less_mult_imp_div_less mult.commute)
    have e: "i div ?w * ?w + i mod ?w = i" by simp
    show "map (\<lambda>i. let x = i mod ?w; y = i div ?w
                  in if x < iwidth img \<and> y < iheight img \<and> y * iwidth img + x < length (idata img)
                     then idata img ! (y * iwidth img + x)
                     else bitmap c ! i) [0..<length (bitmap c)] ! i = idata img ! i"
      using i x y e assms by (simp add: Let_def)
  qed
  then show ?thesis by (simp add: putImageData_def)
qed

lemma restoreState_frame:
  assumes "frame w h s"
  shows "drawingCanvas (restoreState s) =
           Some \<lparr>cwidth = w, cheight = h, bitmap = idata (history s ! nat (historyIndex s))\<rparr>"
    and "history (restoreState s) = history s"
    and "historyIndex (restoreState s) = historyIndex s"
proof -
  from assms obtain c where c: "drawingCanvas s = Some c" "cwidth c = w" "cheight c = h"
    "length (bitmap c) = w * h" "0 \<le> historyIndex s" "historyIndex s < int (length (history s))"
    "list_all (\<lambda>img. iwidth img = w \<and> iheight img = h \<and> length (idata img) = w * h) (history s)"
    by (auto simp: frame_def split: option.splits)
  let ?img = "history s ! nat (historyIndex s)"
  have n: "nat (historyIndex s) < length (history s)" using c by simp
  then have img: "iwidth ?img = w" "iheight ?img = h" "length (idata ?img) = w * h"
    using c(7) by (simp_all add: list_all_length)
  have "putImageData ?img (clearRect c) = (clearRect c)\<lparr>bitmap := idata ?img\<rparr>"
    by (rule putImageData_whole) (simp_all add: clearRect_def img c)
  then show "drawingCanvas (restoreState s) =
           Some \<lparr>cwidth = w, cheight = h, bitmap = idata (history s ! nat (historyIndex s))\<rparr>"
    using c n by (simp add: restoreState_def updateHistoryState_def clearRect_def)
  show "history (restoreState s) = history s"
    using c n by (simp add: restoreState_def updateHistoryState_def)
  show "historyIndex (restoreState s) = historyIndex s"
    using c n by (simp add: restoreState_def updateHistoryState_def)
qed

subsection \<open>Strokes, undo and redo\<close>

lemma length_apply_writes: "length (foldl (\<lambda>b (i, p). b[i := p]) b ws) = length b"
  by (induction ws arbitrary: b) (auto split: prod.splits)

lemma apply_writes_dims:
  "cwidth (apply_writes ws c) = cwidth c"
  "cheight (apply_writes ws c) = cheight c"
  "length (bitmap (apply_writes ws c)) = length (bitmap c)"
  by (simp_all add: apply_writes_def length_apply_writes)

lemma drawOnCanvas_drawing:
  assumes "drawing_from s c t"
  shows "drawing_from s c (drawOnCanvas rast p t)"
proof -
  from assms obtain c' lp where t: "t = s\<lparr>drawingCanvas := Some c', isDrawing := True, lastPoint := lp\<rparr>"
    and d: "cwidth c' = cwidth c" "cheight c' = cheight c" "length (bitmap c') = length (bitmap c)"
    by (auto simp: drawing_from_def)
  let ?sh = "case lp of Some l \<Rightarrow> Segment l p | None \<Rightarrow> Disc p"
  let ?c = "apply_writes (rast (brushSize s) ?sh c') c'"
  have "drawOnCanvas rast p t = s\<lparr>drawingCanvas := Some ?c, isDrawing := True, lastPoint := Some p\<rparr>"
    by (simp add: drawOnCanvas_def t)
  then show ?thesis
    unfolding drawing_from_def using d by (metis apply_writes_dims)
qed

lemma handleMouseDown_drawing:
  assumes "drawingCanvas s = Some c"
  shows "drawing_from s c (handleMouseDown rast e s)"
proof -
  have "drawing_from s c (s\<lparr>isDrawing := True, lastPoint := Some e\<rparr>)"
    unfolding drawing_from_def
    by (rule exI [of _ c], rule exI [of _ "Some e"]) (simp add: assms)
  then have "drawing_from s c (drawOnCanvas rast e (s\<lparr>isDrawing := True, lastPoint := Some e\<rparr>))"
    by (rule drawOnCanvas_drawing)
  then show ?thesis by (simp add: handleMouseDown_def getMousePos_def assms)
qed

lemma handleMouseMove_drawing:
  assumes "drawing_from s c t"
  shows "drawing_from s c (handleMouseMove rast e t)"
proof -
  have "isDrawing t" "drawingCanvas t \<noteq> None" using assms by (auto simp: drawing_from_def)
  then have "handleMouseMove rast e t = drawOnCanvas rast e t"
    by (auto simp: handleMouseMove_def getMousePos_def)
  then show ?thesis using assms by (simp add: drawOnCanvas_drawing)
qed

lemma moves_drawing:
  "drawing_from s c t \<Longrightarrow> drawing_from s c (foldl (\<lambda>t q. handleMouseMove rast q t) t ps)"
  by (induction ps arbitrary: t) (simp_all add: handleMouseMove_drawing)

lemma stroke_saves:
  assumes "drawingCanvas s = Some c"
  shows "\<exists>c'. cwidth c' = cwidth c \<and> cheight c' = cheight c \<and> length (bitmap c') = length (bitmap c) \<and>
           stroke rast st s = saveState (s\<lparr>drawingCanvas := Some c', isDrawing := False, lastPoint := None\<rparr>)"
proof -
  let ?t = "foldl (\<lambda>t q. handleMouseMove rast q t) (handleMouseDown rast (fst st) s) (snd st)"
  have "drawing_from s c ?t" by (rule moves_drawing, rule handleMouseDown_drawing, rule assms)
  then obtain c' lp where t: "?t = s\<lparr>drawingCanvas := Some c', isDrawing := True, lastPoint := lp\<rparr>"
    and d: "cwidth c' = cwidth c" "cheight c' = cheight c" "length (bitmap c') = length (bitmap c)"
    by (auto simp: drawing_from_def)
  have "stroke rast st s = saveState (s\<lparr>drawingCanvas := Some c', isDrawing := False, lastPoint := None\<rparr>)"
    unfolding stroke_def t by (simp add: handleMouseUp_def)
  with d show ?thesis by blast
qed

lemma saveState_effect:
  assumes "drawingCanvas t = Some c" and "- 1 \<le> historyIndex t"
    and "0 < cwidth c" and "0 < cheight c"
  shows "history (saveState t) = take (nat (historyIndex t + 1)) (history t) @ [snapshot c]"
    and "historyIndex (saveState t) = historyIndex t + 1"
    and "drawingCanvas (saveState t) = Some c"
  using assms
  by (auto simp: saveState_def getImageData_def updateHistoryState_def splice_from_def Let_def)

lemma redo_at_tip:
  assumes "int (length (history s)) - 1 \<le> historyIndex s"
  shows "(redo ^^ n) s = s"
proof (induction n)
  case 0 show ?case by simp
next
  case (Suc n)
  have "redo s = s" using assms by (simp add: redo_def)
  then show ?case using Suc by simp
qed

lemma undo_basic:
  assumes "drawingCanvas s = Some c"
  shows "\<exists>c'. drawingCanvas (undo s) = Some c' \<and> cwidth c' = cwidth c \<and> cheight c' = cheight c"
    and "history (undo s) = history s"
    and "historyIndex (undo s) = (if historyIndex s > 0 then historyIndex s - 1 else historyIndex s)"
  using assms
  by (auto simp: undo_def restoreState_def updateHistoryState_def clearRect_def putImageData_def
      Let_def)

lemma undo_funpow_basic:
  assumes "drawingCanvas s = Some c" and "0 \<le> historyIndex s"
  shows "(\<exists>c'. drawingCanvas ((undo ^^ k) s) = Some c' \<and> cwidth c' = cwidth c \<and> cheight c' = cheight c) \<and>
         history ((undo ^^ k) s) = history s \<and>
         historyIndex ((undo ^^ k) s) = max 0 (historyIndex s - int k)"
proof (induction k)
  case 0
  show ?case using assms by simp
next
  case (Suc k)
  then obtain c' where c': "drawingCanvas ((undo ^^ k) s) = Some c'"
    "cwidth c' = cwidth c" "cheight c' = cheight c" by blast
  show ?case using undo_basic [OF c'(1)] c'(2,3) Suc by auto
qed

lemma restoreState_keeps_frame:
  assumes "frame w h s"
  shows "frame w h (restoreState s)" and "current (restoreState s)"
proof -
  note r = restoreState_frame [OF assms]
  have a: "0 \<le> historyIndex s" "historyIndex s < int (length (history s))"
    "list_all (\<lambda>img. iwidth img = w \<and> iheight img = h \<and> length (idata img) = w * h) (history s)"
    "0 < w" "0 < h"
    using assms by (auto simp: frame_def split: option.splits)
  then have "length (idata (history s ! nat (historyIndex s))) = w * h"
    by (simp add: list_all_length)
  then show "frame w h (restoreState s)" using r a by (simp add: frame_def)
  show "current (restoreState s)" using r a by (simp add: current_def)
qed

lemma undo_frame:
  assumes "frame w h s" and "current s"
  shows "frame w h (undo s) \<and> current (undo s) \<and> history (undo s) = history s \<and>
         historyIndex (undo s) = max 0 (historyIndex s - 1)"
proof (cases "historyIndex s > 0")
  case True
  let ?s = "s\<lparr>historyIndex := historyIndex s - 1\<rparr>"
  have f: "frame w h ?s" using assms True by (auto simp: frame_def split: option.splits)
  have u: "undo s = restoreState ?s" using True by (simp add: undo_def)
  show ?thesis
    using restoreState_keeps_frame [OF f] restoreState_frame [OF f] True by (simp add: u)
next
  case False
  then have u: "undo s = s" by (simp add: undo_def)
  have "0 \<le> historyIndex s" "historyIndex s < int (length (history s))"
    using assms by (auto simp: frame_def split: option.splits)
  then show ?thesis using assms False by (simp add: u)
qed

lemma undo_funpow_frame:
  assumes "frame w h s" and "current s"
  shows "frame w h ((undo ^^ k) s) \<and> current ((undo ^^ k) s) \<and>
         history ((undo ^^ k) s) = history s \<and>
         historyIndex ((undo ^^ k) s) = max 0 (historyIndex s - int k)"
proof (induction k)
  case 0
  have "0 \<le> historyIndex s" using assms by (auto simp: frame_def split: option.splits)
  then show ?case using assms by simp
next
  case (Suc k)
  then have f: "frame w h ((undo ^^ k) s)" and c: "current ((undo ^^ k) s)" by simp_all
  show ?case using undo_frame [OF f c] Suc by auto
qed

lemma redo_frame:
  assumes "frame w h s" and "current s"
  shows "frame w h (redo s) \<and> current (redo s) \<and> history (redo s) = history s \<and>
         historyIndex (redo s) = min (int (length (history s)) - 1) (historyIndex s + 1)"
proof (cases "historyIndex s < int (length (history s)) - 1")
  case True
  let ?s = "s\<lparr>historyIndex := historyIndex s + 1\<rparr>"
  have f: "frame w h ?s" using assms True by (auto simp: frame_def split: option.splits)
  have u: "redo s = restoreState ?s" using True by (simp add: redo_def)
  show ?thesis
    using restoreState_keeps_frame [OF f] restoreState_frame [OF f] True by (simp add: u)
next
  case False
  then have u: "redo s = s" by (simp add: redo_def)
  have "0 \<le> historyIndex s" "historyIndex s < int (length (history s))"
    using assms by (auto simp: frame_def split: option.splits)
  then show ?thesis using assms False by (simp add: u)
qed

lemma redo_funpow_frame:
  assumes "frame w h s" and "current s"
  shows "frame w h ((redo ^^ k) s) \<and> current ((redo ^^ k) s) \<and>
         history ((redo ^^ k) s) = history s \<and>
         historyIndex ((redo ^^ k) s) = min (int (length (history s)) - 1) (historyIndex s + int k)"
proof (induction k)
  case 0
  have "historyIndex s < int (length (history s))" using assms by (auto simp: frame_def split: option.splits)
  then show ?case using assms by simp
next
  case (Suc k)
  then have f: "frame w h ((redo ^^ k) s)" and c: "current ((redo ^^ k) s)" by simp_all
  show ?case using redo_frame [OF f c] Suc by auto
qed

lemma imageRef_restoreState: "imageRef (restoreState s) = imageRef s"
  by (simp add: restoreState_def updateHistoryState_def Let_def split: option.splits)

lemma imageRef_undo: "imageRef (undo s) = imageRef s"
  by (simp add: undo_def imageRef_restoreState)

lemma imageRef_undo_funpow: "imageRef ((undo ^^ k) s) = imageRef s"
  by (induction k) (simp_all add: imageRef_undo)

lemma imageRef_saveState: "imageRef (saveState s) = imageRef s"
  by (simp add: saveState_def updateHistoryState_def Let_def split: option.splits)

lemma imageRef_clearMask: "imageRef (clearMask s) = imageRef s"
  by (simp add: clearMask_def imageRef_saveState split: option.splits)

lemma imageRef_drawOnCanvas: "imageRef (drawOnCanvas rast p s) = imageRef s"
  by (simp add: drawOnCanvas_def Let_def split: option.splits)

lemma imageRef_moves:
  "imageRef (foldl (\<lambda>t q. handleMouseMove rast q t) t ps) = imageRef t"
  by (induction ps arbitrary: t)
     (simp_all add: handleMouseMove_def imageRef_drawOnCanvas split: option.splits)

lemma imageRef_stroke: "imageRef (stroke rast st s) = imageRef s"
  by (simp add: stroke_def handleMouseUp_def imageRef_saveState imageRef_moves
      handleMouseDown_def imageRef_drawOnCanvas Let_def split: option.splits)

lemma imageRef_stroke_list:
  "imageRef (foldl (\<lambda>t st. stroke rast st t) s sts) = imageRef s"
  by (induction sts arbitrary: s) (simp_all add: imageRef_stroke)

lemma stroke_frame:
  assumes "frame w h s" and "historyIndex s = int (length (history s)) - 1"
  shows "frame w h (stroke rast st s) \<and> current (stroke rast st s) \<and>
         historyIndex (stroke rast st s) = int (length (history (stroke rast st s))) - 1 \<and>
         length (history (stroke rast st s)) = Suc (length (history s)) \<and>
         take (length (history s)) (history (stroke rast st s)) = history s"
proof -
  from assms(1) obtain c where c: "drawingCanvas s = Some c" "cwidth c = w" "cheight c = h"
    "length (bitmap c) = w * h" "0 \<le> historyIndex s"
    "list_all (\<lambda>img. iwidth img = w \<and> iheight img = h \<and> length (idata img) = w * h) (history s)"
    and pos: "0 < w" "0 < h"
    by (auto simp: frame_def split: option.splits)
  from stroke_saves [OF c(1), of rast st]
  obtain c' where d: "cwidth c' = w" "cheight c' = h" "length (bitmap c') = w * h"
    and s': "stroke rast st s = saveState (s\<lparr>drawingCanvas := Some c', isDrawing := False, lastPoint := None\<rparr>)"
    using c by auto
  let ?t = "s\<lparr>drawingCanvas := Some c', isDrawing := False, lastPoint := None\<rparr>"
  have t: "drawingCanvas ?t = Some c'" "- 1 \<le> historyIndex ?t" "0 < cwidth c'" "0 < cheight c'"
    using c d pos by simp_all
  note e = saveState_effect [OF t]
  have h: "history (stroke rast st s) = history s @ [snapshot c']"
    using e(1) assms(2) by (simp add: s')
  have i: "historyIndex (stroke rast st s) = int (length (history s))"
    using e(2) assms(2) by (simp add: s')
  have k: "drawingCanvas (stroke rast st s) = Some c'" using e(3) by (simp add: s')
  have "frame w h (stroke rast st s)"
    using h i k d c(6) pos by (simp add: frame_def snapshot_def)
  moreover have "current (stroke rast st s)"
    using h i k by (simp add: current_def snapshot_def)
  ultimately show ?thesis using h i by simp
qed

lemma stroke_list_frame:
  fixes rast :: "'pt rasteriser" and s :: "'pt masking"
  assumes "frame w h s" and "current s" and "historyIndex s = int (length (history s)) - 1"
  defines "run_strokes \<equiv> \<lambda>sts s. foldl (\<lambda>t st. stroke rast st t) s sts"
  shows "frame w h (run_strokes sts s) \<and> current (run_strokes sts s) \<and>
         historyIndex (run_strokes sts s) = int (length (history (run_strokes sts s))) - 1 \<and>
         length (history (run_strokes sts s)) = length (history s) + length sts \<and>
         take (length (history s)) (history (run_strokes sts s)) = history s"
  using assms(1-3)
proof (induction sts arbitrary: s)
  case Nil
  then show ?case by (simp add: run_strokes_def)
next
  case (Cons st sts)
  note f = stroke_frame [OF Cons.prems(1) Cons.prems(3), of rast st]
  let ?s = "stroke rast st s"
  have r: "run_strokes (st # sts) s = run_strokes sts ?s" by (simp add: run_strokes_def)
  from f Cons.IH [of ?s]
  have ih: "frame w h (run_strokes sts ?s)" "current (run_strokes sts ?s)"
    "historyIndex (run_strokes sts ?s) = int (length (history (run_strokes sts ?s))) - 1"
    "length (history (run_strokes sts ?s)) = length (history ?s) + length sts"
    "take (length (history ?s)) (history (run_strokes sts ?s)) = history ?s"
    by simp_all
  have "take (length (history s)) (history (run_strokes sts ?s)) =
        take (length (history s)) (take (length (history ?s)) (history (run_strokes sts ?s)))"
    using f by (simp add: min_def)
  also have "\<dots> = history s" using ih(5) f by simp
  finally show ?case using ih f by (simp add: r)
qed

lemma clearMask_frame:
  assumes "drawingCanvas s = Some c" and "canvas_ok c"
  shows "frame (cwidth c) (cheight c) (clearMask s)" and "current (clearMask s)"
  using clearMask_history [OF assms(1)] assms(2)
  by (simp_all add: frame_def current_def canvas_ok_def snapshot_def clearRect_def)

lemma frame_current_canvas:
  assumes "frame w h s" and "current s"
  shows "drawingCanvas s = Some \<lparr>cwidth = w, cheight = h, bitmap = idata (history s ! nat (historyIndex s))\<rparr>"
  using assms by (auto simp: frame_def current_def split: option.splits)

text \<open>
  C8. On an initialised canvas with a valid cursor, a stroke committed after \<open>k\<close> calls
  of \<open>undo\<close> keeps the entries up to the cursor,
  drops every entry beyond it and appends the new snapshot, which the cursor then
  points to; from there any number of calls of \<open>redo\<close> leaves the whole state, cursor and
  layer included, as it is.
\<close>

theorem stroke_after_undo_discards_redo:
  assumes "drawingCanvas s = Some c" and "0 < cwidth c" and "0 < cheight c"
    and "0 \<le> historyIndex s" and "historyIndex s < int (length (history s))"
  shows "\<exists>c'. drawingCanvas (stroke rast st ((undo ^^ k) s)) = Some c'
       \<and> history (stroke rast st ((undo ^^ k) s)) =
           take (nat (max 0 (historyIndex s - int k)) + 1) (history s) @ [snapshot c']
       \<and> length (history (stroke rast st ((undo ^^ k) s))) = nat (max 0 (historyIndex s - int k)) + 2
       \<and> historyIndex (stroke rast st ((undo ^^ k) s)) = max 0 (historyIndex s - int k) + 1
       \<and> (redo ^^ n) (stroke rast st ((undo ^^ k) s)) = stroke rast st ((undo ^^ k) s)"
proof -
  let ?u = "(undo ^^ k) s"
  let ?j = "max 0 (historyIndex s - int k)"
  from undo_funpow_basic [OF assms(1,4), of k]
  obtain cu where u: "drawingCanvas ?u = Some cu" "history ?u = history s" "historyIndex ?u = ?j"
    and du: "cwidth cu = cwidth c" "cheight cu = cheight c"
    by blast
  from stroke_saves [OF u(1), of rast st]
  obtain c' where s': "stroke rast st ?u = saveState (?u\<lparr>drawingCanvas := Some c', isDrawing := False, lastPoint := None\<rparr>)"
    and d': "cwidth c' = cwidth cu" "cheight c' = cheight cu"
    by blast
  let ?t = "?u\<lparr>drawingCanvas := Some c', isDrawing := False, lastPoint := None\<rparr>"
  have t: "drawingCanvas ?t = Some c'" "- 1 \<le> historyIndex ?t" "0 < cwidth c'" "0 < cheight c'"
    using u du d' assms(2,3) by simp_all
  note e = saveState_effect [OF t]
  have h: "history (stroke rast st ?u) = take (nat ?j + 1) (history s) @ [snapshot c']"
    using e(1) u s' by (simp add: nat_add_distrib)
  have i: "historyIndex (stroke rast st ?u) = ?j + 1" using e(2) u s' by simp
  have "nat ?j < length (history s)" using assms by auto
  then have l: "length (history (stroke rast st ?u)) = nat ?j + 2"
    using h by simp
  have "(redo ^^ n) (stroke rast st ?u) = stroke rast st ?u"
    by (rule redo_at_tip) (simp add: i l)
  with h i l e(3) s' show ?thesis by auto
qed

theorem stroke_after_undo_discards_redo_witness:
  "drawingCanvas edge_state = Some edge_canvas
   \<and> 0 < cwidth edge_canvas \<and> 0 < cheight edge_canvas
   \<and> 0 \<le> historyIndex edge_state
   \<and> historyIndex edge_state < int (length (history edge_state))
   \<and> length (history (stroke dab ((1, 0), []) ((undo ^^ 1) edge_state))) = 2
   \<and> historyIndex (stroke dab ((1, 0), []) ((undo ^^ 1) edge_state)) = 1
   \<and> (redo ^^ 3) (stroke dab ((1, 0), []) ((undo ^^ 1) edge_state)) =
       stroke dab ((1, 0), []) ((undo ^^ 1) edge_state)"
proof -
  have h: "drawingCanvas edge_state = Some edge_canvas"
    "0 < cwidth edge_canvas" "0 < cheight edge_canvas" "0 \<le> historyIndex edge_state"
    "historyIndex edge_state < int (length (history edge_state))"
    by (simp_all add: edge_state_def edge_canvas_def)
  have i: "historyIndex edge_state = 1" by (simp add: edge_state_def)
  show ?thesis
    using stroke_after_undo_discards_redo [OF h, of dab "((1, 0), [])" 1 3] h i by auto
qed

subsection \<open>Undo and redo of all strokes\<close>

text \<open>
  The handlers by themselves, with nothing run between them: after \<open>clearMask\<close> and \<open>N\<close>
  strokes, \<open>N\<close> calls of \<open>undo\<close> leave the layer blank, so that the exported mask is black
  throughout (for a resampling filter that makes a transparent layer transparent), and
  \<open>N\<close> calls of \<open>redo\<close> then give back the layer as it was after the last stroke.
\<close>

lemma handlers_undo_all_redo_all:
  fixes rast :: "'pt rasteriser" and s :: "'pt masking" and sts :: "('pt \<times> 'pt list) list"
  assumes "drawingCanvas s = Some c" and "canvas_ok c" and "imageRef s = Some (nw, nh)"
    and "\<And>x y. alpha (smp (clearRect c) nw nh x y) = 0"
  defines "drawn \<equiv> foldl (\<lambda>t st. stroke rast st t) (clearMask s) sts"
  shows "drawingCanvas ((undo ^^ length sts) drawn) = Some (clearRect c)
       \<and> bitmap (clearRect c) = replicate (length (bitmap c)) transparent
       \<and> getMaskAsBase64 smp True ((undo ^^ length sts) drawn) =
           Inr \<lparr>cwidth = nw, cheight = nh, bitmap = replicate (nw * nh) black\<rparr>
       \<and> drawingCanvas ((redo ^^ length sts) ((undo ^^ length sts) drawn)) = drawingCanvas drawn"
proof -
  let ?w = "cwidth c" and ?h = "cheight c" and ?n = "length sts"
  let ?s0 = "clearMask s"
  let ?sN = "drawn"
  let ?u = "(undo ^^ ?n) ?sN"
  let ?r = "(redo ^^ ?n) ?u"
  have pos: "0 < cwidth c" "0 < cheight c" using assms(2) by (simp_all add: canvas_ok_def)
  note i = clearMask_history [OF assms(1) pos]
  note f0 = clearMask_frame [OF assms(1,2)]
  have tip0: "historyIndex ?s0 = int (length (history ?s0)) - 1" using i by simp
  from stroke_list_frame [OF f0 tip0, of rast sts]
  have fN: "frame ?w ?h ?sN" and cN: "current ?sN"
    and tipN: "historyIndex ?sN = int (length (history ?sN)) - 1"
    and lenN: "length (history ?sN) = Suc ?n"
    and pre: "take 1 (history ?sN) = [snapshot (clearRect c)]"
    using i by (simp_all add: drawn_def)
  have h0: "history ?sN ! 0 = snapshot (clearRect c)"
    using pre lenN by (metis nth_Cons_0 nth_take zero_less_one)
  from undo_funpow_frame [OF fN cN, of ?n]
  have fu: "frame ?w ?h ?u" and cu: "current ?u" and hu: "history ?u = history ?sN"
    and iu: "historyIndex ?u = 0" using tipN lenN by simp_all
  have "drawingCanvas ?u = Some \<lparr>cwidth = ?w, cheight = ?h, bitmap = idata (history ?sN ! 0)\<rparr>"
    using frame_current_canvas [OF fu cu] hu iu by simp
  then have du: "drawingCanvas ?u = Some (clearRect c)"
    by (simp add: h0 snapshot_def clearRect_def)
  have blank: "bitmap (clearRect c) = replicate (length (bitmap c)) transparent"
    by (simp add: clearRect_def map_replicate_const)
  have iru: "imageRef ?u = Some (nw, nh)"
    by (simp add: drawn_def imageRef_undo_funpow imageRef_stroke_list imageRef_clearMask assms(3))
  have "map (\<lambda>i. mask_pixel (smp (clearRect c) nw nh (i mod nw) (i div nw))) [0..<nw * nh] =
        replicate (nw * nh) black"
    by (simp add: mask_pixel_def black_def assms(4) map_replicate_const)
  then have ex: "getMaskAsBase64 smp True ?u =
      Inr \<lparr>cwidth = nw, cheight = nh, bitmap = replicate (nw * nh) black\<rparr>"
    using getMaskAsBase64_resolves [OF du iru, of smp] pos by (simp add: clearRect_def)
  from redo_funpow_frame [OF fu cu, of ?n]
  have fr: "frame ?w ?h ?r" and cr: "current ?r" and hr: "history ?r = history ?sN"
    and ir: "historyIndex ?r = int ?n" using hu iu lenN by simp_all
  have "drawingCanvas ?r = drawingCanvas ?sN"
    using frame_current_canvas [OF fr cr] frame_current_canvas [OF fN cN] hr ir tipN lenN by simp
  with du blank ex show ?thesis by simp
qed

subsection \<open>Strokes, undo and redo in the mounted editor\<close>

lemma settle_none: "drop n (reports (component m)) = [] \<Longrightarrow> settle n m = m"
  by (subst settle.simps) simp

lemma settle_same:
  "drop n (reports (component m)) = r # rs \<Longrightarrow> last (r # rs) = (canUndo m, canRedo m) \<Longrightarrow>
   settle n m = m"
  by (subst settle.simps) simp

lemma settle_changed:
  "drop n (reports (component m)) = r # rs \<Longrightarrow> last (r # rs) \<noteq> (canUndo m, canRedo m) \<Longrightarrow>
   settle n m =
     settle (length (reports (component m)))
       (reload (m\<lparr>canUndo := fst (last (r # rs)), canRedo := snd (last (r # rs))\<rparr>))"
  by (subst settle.simps) simp

text \<open>Loading the image again, with a layer present and a layout that is not empty.\<close>

lemma reload_component:
  assumes "drawingCanvas (component m) = Some c" and "0 < fst (layout m)" and "0 < snd (layout m)"
  shows "component (reload m) =
           (component m)
             \<lparr>drawingCanvas := Some (createCanvas (fst (layout m)) (snd (layout m))),
              imageRef := Some (naturalSize m),
              history := [snapshot (createCanvas (fst (layout m)) (snd (layout m)))],
              historyIndex := 0,
              reports := reports (component m) @ [(False, False)]\<rparr>"
    and "canUndo (reload m) = canUndo m" and "canRedo (reload m) = canRedo m"
    and "layout (reload m) = layout m" and "naturalSize (reload m) = naturalSize m"
  using assms
  by (simp_all add: reload_def drawImage_def clearMask_def saveState_def getImageData_def
      updateHistoryState_def createCanvas_def clearRect_def snapshot_def Let_def)

text \<open>
  A report that enables a button of the editor is followed by two loads of the image: one
  for the render that the report causes, one for the render that the report of the first
  load causes. The layer and the history are then those of a canvas just loaded.
\<close>

lemma settle_enabled:
  assumes "drawingCanvas (component m) = Some c" and "0 < fst (layout m)" and "0 < snd (layout m)"
    and "drop n (reports (component m)) = [flags]" and "flags \<noteq> (False, False)"
    and "canUndo m = False" and "canRedo m = False"
  shows "component (settle n m) =
           (component m)
             \<lparr>drawingCanvas := Some (createCanvas (fst (layout m)) (snd (layout m))),
              imageRef := Some (naturalSize m),
              history := [snapshot (createCanvas (fst (layout m)) (snd (layout m)))],
              historyIndex := 0,
              reports := reports (component m) @ [(False, False), (False, False)]\<rparr>"
    and "canUndo (settle n m) = False" and "canRedo (settle n m) = False"
    and "layout (settle n m) = layout m" and "naturalSize (settle n m) = naturalSize m"
proof -
  let ?m1 = "reload (m\<lparr>canUndo := fst flags, canRedo := snd flags\<rparr>)"
  let ?m2 = "reload (?m1\<lparr>canUndo := False, canRedo := False\<rparr>)"
  have ne: "flags \<noteq> (canUndo m, canRedo m)" using assms(5,6,7) by simp
  have s1: "settle n m = settle (length (reports (component m))) ?m1"
    using settle_changed [OF assms(4)] ne by simp
  have a1: "drawingCanvas (component (m\<lparr>canUndo := fst flags, canRedo := snd flags\<rparr>)) = Some c"
    "0 < fst (layout (m\<lparr>canUndo := fst flags, canRedo := snd flags\<rparr>))"
    "0 < snd (layout (m\<lparr>canUndo := fst flags, canRedo := snd flags\<rparr>))"
    using assms(1-3) by simp_all
  note r1 = reload_component [OF a1]
  have d1: "drop (length (reports (component m))) (reports (component ?m1)) = [(False, False)]"
    by (simp add: r1(1))
  have f1: "(canUndo ?m1, canRedo ?m1) = flags" by (simp add: r1(2,3))
  have n1: "last [(False, False)] \<noteq> (canUndo ?m1, canRedo ?m1)"
    using f1 assms(5) by (simp del: prod.collapse)
  have s2: "settle (length (reports (component m))) ?m1 =
            settle (length (reports (component ?m1))) ?m2"
    using settle_changed [OF d1 n1] by simp
  have a2: "drawingCanvas (component (?m1\<lparr>canUndo := False, canRedo := False\<rparr>)) =
      Some (createCanvas (fst (layout m)) (snd (layout m)))"
    "0 < fst (layout (?m1\<lparr>canUndo := False, canRedo := False\<rparr>))"
    "0 < snd (layout (?m1\<lparr>canUndo := False, canRedo := False\<rparr>))"
    using assms(2,3) by (simp_all add: r1)
  note r2 = reload_component [OF a2]
  have d2: "drop (length (reports (component ?m1))) (reports (component ?m2)) = [(False, False)]"
    by (simp add: r2(1))
  have e2: "last [(False, False)] = (canUndo ?m2, canRedo ?m2)" by (simp add: r2(2,3))
  have s3: "settle (length (reports (component ?m1))) ?m2 = ?m2"
    by (rule settle_same [OF d2 e2])
  have s: "settle n m = ?m2" by (simp only: s1 s2 s3)
  show "component (settle n m) =
           (component m)
             \<lparr>drawingCanvas := Some (createCanvas (fst (layout m)) (snd (layout m))),
              imageRef := Some (naturalSize m),
              history := [snapshot (createCanvas (fst (layout m)) (snd (layout m)))],
              historyIndex := 0,
              reports := reports (component m) @ [(False, False), (False, False)]\<rparr>"
    unfolding s by (simp add: r2(1) r1)
  show "canUndo (settle n m) = False" "canRedo (settle n m) = False"
    unfolding s by (simp_all add: r2(2,3))
  show "layout (settle n m) = layout m" "naturalSize (settle n m) = naturalSize m"
    unfolding s by (simp_all add: r2(4,5) r1(4,5))
qed

text \<open>
  In the mounted editor a completed stroke does not last. On a loaded canvas with both
  buttons disabled, the stroke is saved and reported with \<open>canUndo\<close> true; the loads
  that follow leave the layer blank, the history with the blank snapshot alone and both
  buttons disabled, whatever was painted.
\<close>

lemma wired_stroke_is_wiped:
  assumes "drawingCanvas (component m) = Some c" and "0 < cwidth c" and "0 < cheight c"
    and "0 \<le> historyIndex (component m)"
    and "0 < fst (layout m)" and "0 < snd (layout m)"
    and "canUndo m = False" and "canRedo m = False"
  shows "drawingCanvas (component (wired (stroke rast st) m)) =
           Some (createCanvas (fst (layout m)) (snd (layout m)))"
    and "history (component (wired (stroke rast st) m)) =
           [snapshot (createCanvas (fst (layout m)) (snd (layout m)))]"
    and "historyIndex (component (wired (stroke rast st) m)) = 0"
    and "canUndo (wired (stroke rast st) m) = False" and "canRedo (wired (stroke rast st) m) = False"
    and "layout (wired (stroke rast st) m) = layout m"
proof -
  let ?s = "component m"
  from stroke_saves [OF assms(1), of rast st]
  obtain c' where d: "cwidth c' = cwidth c" "cheight c' = cheight c"
    and s': "stroke rast st ?s =
       saveState (?s\<lparr>drawingCanvas := Some c', isDrawing := False, lastPoint := None\<rparr>)"
    by blast
  let ?t = "?s\<lparr>drawingCanvas := Some c', isDrawing := False, lastPoint := None\<rparr>"
  have g: "getImageData c' = Some (snapshot c')"
    using d assms(2,3) by (simp add: getImageData_def)
  have rep: "reports (stroke rast st ?s) = reports ?s @ [(True, False)]"
    using assms(4) g
    by (auto simp: s' saveState_def updateHistoryState_def splice_from_def Let_def)
  have dc: "drawingCanvas (stroke rast st ?s) = Some c'"
    using g by (simp add: s' saveState_def updateHistoryState_def Let_def)
  let ?m = "m\<lparr>component := stroke rast st ?s\<rparr>"
  have a: "drawingCanvas (component ?m) = Some c'" "0 < fst (layout ?m)" "0 < snd (layout ?m)"
    "drop (length (reports ?s)) (reports (component ?m)) = [(True, False)]"
    "(True, False) \<noteq> (False, False)" "canUndo ?m = False" "canRedo ?m = False"
    using dc rep assms(5-8) by simp_all
  note e = settle_enabled [OF a]
  show "drawingCanvas (component (wired (stroke rast st) m)) =
           Some (createCanvas (fst (layout m)) (snd (layout m)))"
    "history (component (wired (stroke rast st) m)) =
           [snapshot (createCanvas (fst (layout m)) (snd (layout m)))]"
    "historyIndex (component (wired (stroke rast st) m)) = 0"
    "canUndo (wired (stroke rast st) m) = False" "canRedo (wired (stroke rast st) m) = False"
    "layout (wired (stroke rast st) m) = layout m"
    unfolding wired_def using e by simp_all
qed

text \<open>
  C2. In the editor the round trip does not bring the strokes back. One stroke on the
  loaded two-pixel canvas paints both pixels, and its report enables the Undo button;
  the render that follows loads the image again, and \<open>drawImage\<close> ends with \<open>clearMask\<close>.
  After the stroke the layer is blank, the history holds the blank snapshot alone and
  both buttons are disabled. Undo and redo, by the buttons or by the handlers behind
  them, leave the layer blank: the layer painted by the stroke is not restored.
\<close>

theorem stroke_lost_in_mounted_editor:
  "drawingCanvas (stroke dab ((0, 0), [(1, 0)]) (component mounted_blank)) =
     Some \<lparr>cwidth = 2, cheight = 1, bitmap = [brush_red, brush_red]\<rparr>
   \<and> reports (stroke dab ((0, 0), [(1, 0)]) (component mounted_blank)) =
       [(False, False), (True, False)]
   \<and> drawingCanvas (component (strokes dab [((0, 0), [(1, 0)])] mounted_blank)) =
       Some \<lparr>cwidth = 2, cheight = 1, bitmap = [transparent, transparent]\<rparr>
   \<and> history (component (strokes dab [((0, 0), [(1, 0)])] mounted_blank)) =
       [\<lparr>iwidth = 2, iheight = 1, idata = [transparent, transparent]\<rparr>]
   \<and> historyIndex (component (strokes dab [((0, 0), [(1, 0)])] mounted_blank)) = 0
   \<and> \<not> canUndo (strokes dab [((0, 0), [(1, 0)])] mounted_blank)
   \<and> \<not> canRedo (strokes dab [((0, 0), [(1, 0)])] mounted_blank)
   \<and> drawingCanvas (component ((press_redo ^^ 1) ((press_undo ^^ 1)
         (strokes dab [((0, 0), [(1, 0)])] mounted_blank)))) =
       Some \<lparr>cwidth = 2, cheight = 1, bitmap = [transparent, transparent]\<rparr>
   \<and> drawingCanvas (component ((wired redo ^^ 1) ((wired undo ^^ 1)
         (strokes dab [((0, 0), [(1, 0)])] mounted_blank)))) =
       Some \<lparr>cwidth = 2, cheight = 1, bitmap = [transparent, transparent]\<rparr>"
proof -
  let ?st = "((0, 0), [(1, 0)]) :: (int \<times> int) \<times> (int \<times> int) list"
  let ?blank = "\<lparr>cwidth = 2, cheight = 1, bitmap = [transparent, transparent]\<rparr>"
  have painted: "drawingCanvas (stroke dab ?st (component mounted_blank)) =
      Some \<lparr>cwidth = 2, cheight = 1, bitmap = [brush_red, brush_red]\<rparr>"
    "reports (stroke dab ?st (component mounted_blank)) = [(False, False), (True, False)]"
    by (simp_all add: stroke_def handleMouseUp_def handleMouseMove_def handleMouseDown_def
        getMousePos_def drawOnCanvas_def apply_writes_def dab_def saveState_def
        getImageData_def snapshot_def updateHistoryState_def mounted_blank_def Let_def)
  have m: "drawingCanvas (component mounted_blank) = Some ?blank" "0 < cwidth ?blank"
    "0 < cheight ?blank" "0 \<le> historyIndex (component mounted_blank)"
    "0 < fst (layout mounted_blank)" "0 < snd (layout mounted_blank)"
    "canUndo mounted_blank = False" "canRedo mounted_blank = False"
    by (simp_all add: mounted_blank_def)
  note w = wired_stroke_is_wiped [OF m, of dab ?st]
  let ?after = "strokes dab [?st] mounted_blank"
  have after: "?after = wired (stroke dab ?st) mounted_blank" by (simp add: strokes_def)
  have l: "layout mounted_blank = (2, 1)" by (simp add: mounted_blank_def)
  have dc: "drawingCanvas (component ?after) = Some ?blank"
    using w(1) by (simp add: after l createCanvas_def numeral_2_eq_2)
  have h: "history (component ?after) = [\<lparr>iwidth = 2, iheight = 1, idata = [transparent, transparent]\<rparr>]"
    using w(2) by (simp add: after l createCanvas_def snapshot_def numeral_2_eq_2)
  have i: "historyIndex (component ?after) = 0" using w(3) by (simp add: after)
  have f: "\<not> canUndo ?after" "\<not> canRedo ?after" using w(4,5) by (simp_all add: after)
  have pressed: "(press_redo ^^ 1) ((press_undo ^^ 1) ?after) = ?after"
    using f by (simp add: press_undo_def press_redo_def)
  have u: "undo (component ?after) = component ?after" using i by (simp add: undo_def)
  have r: "redo (component ?after) = component ?after" using i h by (simp add: redo_def)
  have same: "?after\<lparr>component := component ?after\<rparr> = ?after" by simp
  have wu: "wired undo ?after = ?after"
    unfolding wired_def u same by (rule settle_none) simp
  have wr: "wired redo ?after = ?after"
    unfolding wired_def r same by (rule settle_none) simp
  have called: "(wired redo ^^ 1) ((wired undo ^^ 1) ?after) = ?after"
    by (simp add: wu wr)
  show ?thesis
    using painted dc h i f by (simp only: pressed called) simp
qed

section \<open>Properties of batch generation\<close>

lemma request_parts_sent:
  assumes "mask_ready t mref"
  shows "request_parts t prompt mref img = Inr (sent t prompt mref img)"
  using assms
  by (auto simp: sent_def request_parts_def mask_ready_def Let_def split: option.splits sum.splits)

lemma body_editor_with_image:
  assumes "mask_ready t mref" and "answer_of (service (sent t prompt mref img)) = WithImage d m"
  shows "body_editor service t prompt mref img (processed, st) =
           ((processed @ [processed_entry img d m],
             st\<lparr>requests := requests st @ [sent t prompt mref img],
                generatedImages := processed @ [processed_entry img d m]\<rparr>), None)"
  using assms(2)
  by (auto simp: body_editor_def request_parts_sent [OF assms(1)] answer_of_def Let_def
      split: api_result.splits option.splits)

lemma body_editor_without_image:
  assumes "mask_ready t mref" and "answer_of (service (sent t prompt mref img)) = WithoutImage"
  shows "body_editor service t prompt mref img (processed, st) =
           ((processed,
             st\<lparr>requests := requests st @ [sent t prompt mref img],
                error := Some (no_image_message img)\<rparr>), None)"
  using assms(2)
  by (auto simp: body_editor_def request_parts_sent [OF assms(1)] answer_of_def Let_def
      split: api_result.splits option.splits)

lemma body_variant_with_image:
  assumes "mask_ready t mref" and "answer_of (service (sent t prompt mref img)) = WithImage d m"
  shows "body_variant service t prompt mref img (processed, st) =
           ((processed @ [processed_entry img d m],
             st\<lparr>requests := requests st @ [sent t prompt mref img],
                generatedImages := generatedImages st @ [processed_entry img d m]\<rparr>), None)"
  using assms(2)
  by (auto simp: body_variant_def request_parts_sent [OF assms(1)] answer_of_def Let_def
      split: api_result.splits option.splits)

lemma body_variant_without_image:
  assumes "mask_ready t mref" and "answer_of (service (sent t prompt mref img)) = WithoutImage"
  shows "body_variant service t prompt mref img (processed, st) =
           ((processed, st\<lparr>requests := requests st @ [sent t prompt mref img]\<rparr>),
            Some (ErrorObject (no_image_message img)))"
  using assms(2)
  by (auto simp: body_variant_def request_parts_sent [OF assms(1)] answer_of_def Let_def
      split: api_result.splits option.splits)

lemma entries_of_Cons:
  "entries_of service t prompt mref (img # imgs) =
     (case answer_of (service (sent t prompt mref img)) of
        WithImage d m \<Rightarrow> [processed_entry img d m]
      | _ \<Rightarrow> []) @ entries_of service t prompt mref imgs"
  by (simp add: entries_of_def)

lemma last_message_Cons:
  "last_message service t prompt mref (img # imgs) before =
     last_message service t prompt mref imgs
       (if is_empty service t prompt mref img then Some (no_image_message img) else before)"
  by (auto simp: last_message_def split: list.splits)

lemma for_images_editor:
  assumes "mask_ready t mref"
    and "list_all (returns service t prompt mref) imgs"
    and "generatedImages st = processed"
  shows "for_images (body_editor service t prompt mref) True imgs (processed, st) =
           ((processed @ entries_of service t prompt mref imgs,
             st\<lparr>requests := requests st @ map (sent t prompt mref) imgs,
                generatedImages := processed @ entries_of service t prompt mref imgs,
                error := last_message service t prompt mref imgs (error st)\<rparr>), None)"
  using assms(2,3)
proof (induction imgs arbitrary: processed st)
  case Nil
  then show ?case by (simp add: entries_of_def last_message_def)
next
  case (Cons img imgs)
  show ?case
  proof (cases "answer_of (service (sent t prompt mref img))")
    case (WithImage d m)
    let ?p = "processed @ [processed_entry img d m]"
    let ?st = "st\<lparr>requests := requests st @ [sent t prompt mref img], generatedImages := ?p\<rparr>"
    have "for_images (body_editor service t prompt mref) True (img # imgs) (processed, st) =
          for_images (body_editor service t prompt mref) True imgs (?p, ?st)"
      by (simp add: body_editor_with_image [where service = service and prompt = prompt, OF assms(1) WithImage])
    also have "\<dots> = ((?p @ entries_of service t prompt mref imgs,
             ?st\<lparr>requests := requests ?st @ map (sent t prompt mref) imgs,
                generatedImages := ?p @ entries_of service t prompt mref imgs,
                error := last_message service t prompt mref imgs (error ?st)\<rparr>), None)"
      using Cons.prems by (intro Cons.IH) simp_all
    finally show ?thesis
      using WithImage by (simp add: entries_of_Cons last_message_Cons is_empty_def)
  next
    case WithoutImage
    let ?st = "st\<lparr>requests := requests st @ [sent t prompt mref img],
                  error := Some (no_image_message img)\<rparr>"
    have "for_images (body_editor service t prompt mref) True (img # imgs) (processed, st) =
          for_images (body_editor service t prompt mref) True imgs (processed, ?st)"
      by (simp add: body_editor_without_image [where service = service and prompt = prompt, OF assms(1) WithoutImage])
    also have "\<dots> = ((processed @ entries_of service t prompt mref imgs,
             ?st\<lparr>requests := requests ?st @ map (sent t prompt mref) imgs,
                generatedImages := processed @ entries_of service t prompt mref imgs,
                error := last_message service t prompt mref imgs (error ?st)\<rparr>), None)"
      using Cons.prems by (intro Cons.IH) simp_all
    finally show ?thesis
      using WithoutImage by (simp add: entries_of_Cons last_message_Cons is_empty_def)
  next
    case Failing
    then show ?thesis using Cons.prems by (simp add: returns_def)
  qed
qed

lemma for_images_variant_images:
  assumes "mask_ready t mref"
    and "list_all (has_image service t prompt mref) imgs"
    and "generatedImages st = processed"
  shows "for_images (body_variant service t prompt mref) True imgs (processed, st) =
           ((processed @ entries_of service t prompt mref imgs,
             st\<lparr>requests := requests st @ map (sent t prompt mref) imgs,
                generatedImages := processed @ entries_of service t prompt mref imgs\<rparr>), None)"
  using assms(2,3)
proof (induction imgs arbitrary: processed st)
  case Nil
  then show ?case by (simp add: entries_of_def)
next
  case (Cons img imgs)
  from Cons.prems obtain d m where a: "answer_of (service (sent t prompt mref img)) = WithImage d m"
    by (auto simp: has_image_def split: answer.splits)
  let ?p = "processed @ [processed_entry img d m]"
  let ?st = "st\<lparr>requests := requests st @ [sent t prompt mref img],
                generatedImages := generatedImages st @ [processed_entry img d m]\<rparr>"
  have "for_images (body_variant service t prompt mref) True (img # imgs) (processed, st) =
        for_images (body_variant service t prompt mref) True imgs (?p, ?st)"
    by (simp add: body_variant_with_image [where service = service and prompt = prompt, OF assms(1) a])
  also have "\<dots> = ((?p @ entries_of service t prompt mref imgs,
             ?st\<lparr>requests := requests ?st @ map (sent t prompt mref) imgs,
                generatedImages := ?p @ entries_of service t prompt mref imgs\<rparr>), None)"
    using Cons.prems by (intro Cons.IH) simp_all
  finally show ?case using a by (simp add: entries_of_Cons)
qed

lemma for_images_append:
  "for_images b True (xs @ ys) acc =
     (case for_images b True xs acc of
        (acc', Some e) \<Rightarrow> (acc', Some e)
      | (acc', None) \<Rightarrow> for_images b True ys acc')"
  by (induction xs arbitrary: acc) (auto split: prod.splits option.splits)

lemma for_images_variant_stops:
  assumes "mask_ready t mref"
    and "list_all (has_image service t prompt mref) pre"
    and "is_empty service t prompt mref x"
    and "generatedImages st = processed"
  shows "for_images (body_variant service t prompt mref) True (pre @ x # post) (processed, st) =
           ((processed @ entries_of service t prompt mref pre,
             st\<lparr>requests := requests st @ map (sent t prompt mref) (pre @ [x]),
                generatedImages := processed @ entries_of service t prompt mref pre\<rparr>),
            Some (ErrorObject (no_image_message x)))"
  using assms(3)
  by (simp add: for_images_append for_images_variant_images [OF assms(1,2,4)]
      body_variant_without_image [where service = service and prompt = prompt, OF assms(1)] is_empty_def)

lemma has_image_returns: "has_image service t prompt mref img \<Longrightarrow> returns service t prompt mref img"
  by (auto simp: has_image_def returns_def split: answer.splits)

lemma is_empty_returns: "is_empty service t prompt mref img \<Longrightarrow> returns service t prompt mref img"
  by (simp add: is_empty_def returns_def)

text \<open>
  C3, as amended. In batch mode, let \<open>x\<close> be the first image for which the service
  returns no image data, the images before it all having been answered with data, and let
  no later call throw. The \<open>handleGenerate\<close> of \<open>ImageEditor.tsx\<close> handles the empty
  result for that item alone: it records the message and goes on, so that every image of
  the batch is requested and every image answered with data is among the results. The
  \<open>handleGenerate\<close> of the later variant throws on the empty result: the loop ends, the
  images after \<open>x\<close> are never requested, the results hold the images before \<open>x\<close>, and
  the message names \<open>x\<close>.
\<close>

theorem empty_result_per_variant:
  assumes "isBatchMode t" and "mask_ready t mref"
    and "list_all (has_image service t prompt mref) pre"
    and "is_empty service t prompt mref x"
    and "list_all (returns service t prompt mref) post"
  shows "requests (handleGenerate service t prompt mref (pre @ x # post) st) =
           requests st @ map (sent t prompt mref) (pre @ x # post)
       \<and> generatedImages (handleGenerate service t prompt mref (pre @ x # post) st) =
           entries_of service t prompt mref pre @ entries_of service t prompt mref post
       \<and> error (handleGenerate service t prompt mref (pre @ x # post) st) =
           last_message service t prompt mref post (Some (no_image_message x))
       \<and> requests (handleGenerate_variant service t prompt mref (pre @ x # post) st) =
           requests st @ map (sent t prompt mref) (pre @ [x])
       \<and> generatedImages (handleGenerate_variant service t prompt mref (pre @ x # post) st) =
           entries_of service t prompt mref pre
       \<and> error (handleGenerate_variant service t prompt mref (pre @ x # post) st) =
           Some (no_image_message x)"
proof -
  let ?st0 = "st\<lparr>isLoading := True, error := None, generatedImages := []\<rparr>"
  have np: "\<not> requiresPrompt t" using assms(1) by (simp add: isBatchMode_def requiresPrompt_def)
  have all: "list_all (returns service t prompt mref) (pre @ x # post)"
    using assms(3,4,5) by (auto simp: list_all_iff has_image_returns is_empty_returns)
  have g0: "generatedImages ?st0 = []" by simp
  note ed = for_images_editor [OF assms(2) all g0]
  note va = for_images_variant_stops [OF assms(2,3,4) g0, of post]
  have ex: "entries_of service t prompt mref (pre @ x # post) =
            entries_of service t prompt mref pre @ entries_of service t prompt mref post"
    using assms(4) by (simp add: entries_of_def is_empty_def)
  have "filter (is_empty service t prompt mref) pre = []"
    using assms(3) by (auto simp: filter_empty_conv list_all_iff has_image_def is_empty_def)
  then have lm: "last_message service t prompt mref (pre @ x # post) None =
            last_message service t prompt mref post (Some (no_image_message x))"
    using assms(4) by (auto simp: last_message_def split: list.splits)
  show ?thesis
    using assms(1) np by (simp add: handleGenerate_def handleGenerate_variant_def ed va ex lm Let_def)
qed

lemma demo_answers:
  "has_image demo_service remover [] None img_a"
  "is_empty demo_service remover [] None img_b"
  "has_image demo_service remover [] None img_c"
  by (simp_all add: has_image_def is_empty_def answer_of_def demo_service_def sent_def
      request_parts_def remover_def img_a_def img_b_def img_c_def at_index_def Let_def)

theorem empty_result_per_variant_witness:
  "isBatchMode remover \<and> mask_ready remover None
   \<and> has_image demo_service remover [] None img_a
   \<and> is_empty demo_service remover [] None img_b
   \<and> returns demo_service remover [] None img_c
   \<and> requests (handleGenerate demo_service remover [] None [img_a, img_b, img_c] fresh_editor) =
       [sent remover [] None img_a, sent remover [] None img_b, sent remover [] None img_c]
   \<and> map gid (generatedImages (handleGenerate demo_service remover [] None [img_a, img_b, img_c] fresh_editor)) =
       [1, 3]
   \<and> requests (handleGenerate_variant demo_service remover [] None [img_a, img_b, img_c] fresh_editor) =
       [sent remover [] None img_a, sent remover [] None img_b]
   \<and> map gid (generatedImages (handleGenerate_variant demo_service remover [] None [img_a, img_b, img_c] fresh_editor)) =
       [1]
   \<and> error (handleGenerate_variant demo_service remover [] None [img_a, img_b, img_c] fresh_editor) =
       Some ''Failed to process image: b.png. No image data in response.''"
proof -
  have b: "isBatchMode remover" "mask_ready remover None"
    by (simp_all add: isBatchMode_def mask_ready_def remover_def)
  have pre: "list_all (has_image demo_service remover [] None) [img_a]"
    and post: "list_all (returns demo_service remover [] None) [img_c]"
    using demo_answers by (simp_all add: has_image_returns)
  have e: "entries_of demo_service remover [] None [img_a] = [processed_entry img_a (Some ''UE5H'') ''image/png'']"
    "entries_of demo_service remover [] None [img_c] = [processed_entry img_c (Some ''UE5H'') ''image/png'']"
    by (simp_all add: entries_of_def answer_of_def demo_service_def sent_def
      request_parts_def remover_def img_a_def img_b_def img_c_def at_index_def Let_def)
  have i: "gid (processed_entry img_a (Some ''UE5H'') ''image/png'') = 1"
    "gid (processed_entry img_c (Some ''UE5H'') ''image/png'') = 3"
    by (simp_all add: processed_entry_def img_a_def img_c_def Let_def)
  have m: "no_image_message img_b = ''Failed to process image: b.png. No image data in response.''"
    by (simp add: no_image_message_def img_b_def)
  show ?thesis
    using empty_result_per_variant [OF b pre demo_answers(2) post, of fresh_editor]
      b demo_answers has_image_returns [OF demo_answers(3)] e i m
    by (simp add: fresh_editor_def)
qed

text \<open>
  C3 as stated fails on the later variant, where the batch ends at the first empty
  result: of three images, the second without data, the third is never requested.
\<close>

theorem batch_variant_aborts:
  "isBatchMode remover
   \<and> is_empty demo_service remover [] None img_b
   \<and> requests (handleGenerate_variant demo_service remover [] None [img_a, img_b, img_c] fresh_editor) =
       [sent remover [] None img_a, sent remover [] None img_b]
   \<and> sent remover [] None img_c \<notin>
       set (requests (handleGenerate_variant demo_service remover [] None [img_a, img_b, img_c] fresh_editor))"
proof -
  have r: "request_parts remover [] None img_a = Inr (sent remover [] None img_a)"
    "request_parts remover [] None img_b = Inr (sent remover [] None img_b)"
    by (simp_all add: request_parts_sent mask_ready_def)
  have d: "sent remover [] None img_a \<noteq> sent remover [] None img_b"
    "sent remover [] None img_c \<noteq> sent remover [] None img_b"
    "sent remover [] None img_c \<noteq> sent remover [] None img_a"
    by (simp_all add: sent_def request_parts_def remover_def img_a_def img_b_def img_c_def
        at_index_def Let_def)
  have "requests (handleGenerate_variant demo_service remover [] None [img_a, img_b, img_c] fresh_editor) =
       [sent remover [] None img_a, sent remover [] None img_b]"
    by (simp add: handleGenerate_variant_def requiresPrompt_def isBatchMode_def body_variant_def
        r d demo_service_def fresh_editor_def Let_def remover_def [THEN arg_cong, of toolId])
  then show ?thesis using d demo_answers(2) by (simp add: isBatchMode_def remover_def)
qed

section \<open>Properties of the live conversation\<close>

subsection \<open>Trimming\<close>

lemma trim_Nil_iff: "trim s = [] \<longleftrightarrow> list_all is_space s"
proof -
  have "trim s = [] \<longleftrightarrow> dropWhile is_space (rev (dropWhile is_space s)) = []"
    by (simp add: trim_def)
  also have "\<dots> \<longleftrightarrow> (\<forall>c \<in> set (dropWhile is_space s). is_space c)"
    by simp
  also have "\<dots> \<longleftrightarrow> dropWhile is_space s = []"
  proof
    assume a: "\<forall>c \<in> set (dropWhile is_space s). is_space c"
    show "dropWhile is_space s = []"
    proof (rule ccontr)
      assume n: "dropWhile is_space s \<noteq> []"
      then have "\<not> is_space (hd (dropWhile is_space s))" by (rule hd_dropWhile)
      moreover have "hd (dropWhile is_space s) \<in> set (dropWhile is_space s)" using n by simp
      ultimately show False using a by blast
    qed
  next
    assume "dropWhile is_space s = []"
    then show "\<forall>c \<in> set (dropWhile is_space s). is_space c" by (simp only: list.set ball_empty)
  qed
  also have "\<dots> \<longleftrightarrow> list_all is_space s"
    by (simp add: list_all_iff)
  finally show ?thesis .
qed

lemma last_dropWhile_nonempty:
  assumes "dropWhile P xs \<noteq> []"
  shows "last (dropWhile P xs) = last xs"
proof -
  have "xs = takeWhile P xs @ dropWhile P xs" by simp
  then have "last xs = last (takeWhile P xs @ dropWhile P xs)" by simp
  also have "\<dots> = last (dropWhile P xs)" using assms by (simp only: last_append if_False)
  finally show ?thesis by simp
qed

lemma trim_ends:
  assumes "trim s \<noteq> []"
  shows "\<not> is_space (hd (trim s))" and "\<not> is_space (last (trim s))"
proof -
  let ?ys = "dropWhile is_space s"
  let ?zs = "dropWhile is_space (rev ?ys)"
  have z: "?zs \<noteq> []" using assms by (simp add: trim_def)
  have y: "?ys \<noteq> []"
  proof
    assume "?ys = []"
    then have "?zs = []" by (simp only: rev.simps dropWhile.simps)
    with z show False by blast
  qed
  have "last (trim s) = hd ?zs" using z by (simp add: trim_def last_rev)
  then show "\<not> is_space (last (trim s))" using hd_dropWhile [OF z] by simp
  have "hd (trim s) = last ?zs" using z by (simp add: trim_def hd_rev)
  also have "\<dots> = last (rev ?ys)" by (rule last_dropWhile_nonempty [OF z])
  also have "\<dots> = hd ?ys" using y by (simp add: last_rev)
  finally show "\<not> is_space (hd (trim s))" using hd_dropWhile [OF y] by simp
qed

subsection \<open>Transcription\<close>

lemma append_transcriptions_buffers:
  "currentInputTranscriptionRef (append_transcriptions m s) =
     currentInputTranscriptionRef s @ input_text m"
  "currentOutputTranscriptionRef (append_transcriptions m s) =
     currentOutputTranscriptionRef s @ output_text m"
  "transcript (append_transcriptions m s) = transcript s"
  by (simp_all add: append_transcriptions_def input_text_def output_text_def Let_def
      split: option.splits)

lemma complete_turn_result:
  "transcript (complete_turn s) =
     transcript s @ turn_entries (currentInputTranscriptionRef s) (currentOutputTranscriptionRef s)"
  "currentInputTranscriptionRef (complete_turn s) = []"
  "currentOutputTranscriptionRef (complete_turn s) = []"
  by (simp_all add: complete_turn_def turn_entries_def Let_def)

text \<open>The audio and interruption parts of the handler leave transcript and buffers alone.\<close>

lemma onmessage_text_fields:
  "transcript (onmessage decoded m now s) =
     transcript (if turn_done m then complete_turn (append_transcriptions m s)
                 else append_transcriptions m s)"
  "currentInputTranscriptionRef (onmessage decoded m now s) =
     currentInputTranscriptionRef (if turn_done m then complete_turn (append_transcriptions m s)
                 else append_transcriptions m s)"
  "currentOutputTranscriptionRef (onmessage decoded m now s) =
     currentOutputTranscriptionRef (if turn_done m then complete_turn (append_transcriptions m s)
                 else append_transcriptions m s)"
  by (auto simp: onmessage_def turn_done_def emit_def schedule_chunk_def stop_sources_def Let_def
      split: option.splits sum.splits)

lemma onmessage_turn_complete:
  assumes "turn_done m"
  shows "transcript (onmessage decoded m now s) =
           transcript s @ turn_entries (currentInputTranscriptionRef s @ input_text m)
                                       (currentOutputTranscriptionRef s @ output_text m)"
    and "currentInputTranscriptionRef (onmessage decoded m now s) = []"
    and "currentOutputTranscriptionRef (onmessage decoded m now s) = []"
  using assms
  by (simp_all add: onmessage_text_fields complete_turn_result append_transcriptions_buffers)

lemma onmessage_turn_open:
  assumes "\<not> turn_done m"
  shows "transcript (onmessage decoded m now s) = transcript s"
    and "currentInputTranscriptionRef (onmessage decoded m now s) =
           currentInputTranscriptionRef s @ input_text m"
    and "currentOutputTranscriptionRef (onmessage decoded m now s) =
           currentOutputTranscriptionRef s @ output_text m"
  using assms
  by (simp_all add: onmessage_text_fields append_transcriptions_buffers)

lemma receive_snoc:
  "receive decoded (ms @ [(m, now)]) s = onmessage decoded m now (receive decoded ms s)"
  by (simp add: receive_def)

lemma receive_turn_open:
  assumes "list_all (\<lambda>p. \<not> turn_done (fst p)) ms"
  shows "transcript (receive decoded ms s) = transcript s \<and>
         currentInputTranscriptionRef (receive decoded ms s) =
           currentInputTranscriptionRef s @ concat (map (input_text \<circ> fst) ms) \<and>
         currentOutputTranscriptionRef (receive decoded ms s) =
           currentOutputTranscriptionRef s @ concat (map (output_text \<circ> fst) ms)"
  using assms
proof (induction ms rule: rev_induct)
  case Nil
  show ?case by (simp add: receive_def)
next
  case (snoc p ms)
  obtain m now where p: "p = (m, now)" by (cases p)
  have o: "\<not> turn_done m" using snoc.prems p by simp
  have "list_all (\<lambda>p. \<not> turn_done (fst p)) ms" using snoc.prems by simp
  with snoc.IH show ?case
    by (simp add: p receive_snoc onmessage_turn_open [OF o])
qed

lemma trim_decomposition:
  "\<exists>pre post. s = pre @ trim s @ post \<and> list_all is_space pre \<and> list_all is_space post"
proof -
  let ?ys = "dropWhile is_space s"
  let ?pre = "takeWhile is_space s"
  let ?post = "rev (takeWhile is_space (rev ?ys))"
  have "trim s @ ?post =
        rev (takeWhile is_space (rev ?ys) @ dropWhile is_space (rev ?ys))"
    by (simp only: trim_def rev_append)
  also have "\<dots> = rev (rev ?ys)" by (simp only: takeWhile_dropWhile_id)
  also have "\<dots> = ?ys" by (simp only: rev_rev_ident)
  finally have "?ys = trim s @ ?post" by (rule sym)
  moreover have "s = ?pre @ ?ys" by simp
  ultimately have "s = ?pre @ trim s @ ?post" by simp
  moreover have "list_all is_space ?pre"
    by (auto simp: list_all_iff dest: set_takeWhileD)
  moreover have "list_all is_space ?post"
    by (auto simp: list_all_iff dest: set_takeWhileD)
  ultimately show ?thesis by blast
qed

text \<open>
  C10. On a message with \<open>turnComplete\<close>, each buffer (with the text the message itself
  adds) is trimmed: a buffer of white space only commits nothing, any other commits its
  trimmed text, which is the buffer less a prefix and a suffix of white space and neither
  starts nor ends with white space; the user's entry comes first; both buffers are empty
  afterwards.
\<close>

theorem turn_complete_commits_trimmed:
  fixes s :: conversation and m :: message
  assumes "turn_done m"
  defines "u \<equiv> currentInputTranscriptionRef s @ input_text m"
    and "v \<equiv> currentOutputTranscriptionRef s @ output_text m"
  shows "transcript (onmessage decoded m now s) =
           transcript s @
           (if list_all is_space u then [] else [\<lparr>speaker = User, words = trim u\<rparr>]) @
           (if list_all is_space v then [] else [\<lparr>speaker = Model, words = trim v\<rparr>])
       \<and> currentInputTranscriptionRef (onmessage decoded m now s) = []
       \<and> currentOutputTranscriptionRef (onmessage decoded m now s) = []
       \<and> (\<exists>pre post. u = pre @ trim u @ post \<and> list_all is_space pre \<and> list_all is_space post)
       \<and> (\<exists>pre post. v = pre @ trim v @ post \<and> list_all is_space pre \<and> list_all is_space post)
       \<and> (list_all is_space u \<or> \<not> is_space (hd (trim u)) \<and> \<not> is_space (last (trim u)))
       \<and> (list_all is_space v \<or> \<not> is_space (hd (trim v)) \<and> \<not> is_space (last (trim v)))"
proof -
  have "transcript (onmessage decoded m now s) = transcript s @ turn_entries u v"
    unfolding u_def v_def by (rule onmessage_turn_complete(1) [OF assms(1)])
  then have "transcript (onmessage decoded m now s) =
           transcript s @
           (if list_all is_space u then [] else [\<lparr>speaker = User, words = trim u\<rparr>]) @
           (if list_all is_space v then [] else [\<lparr>speaker = Model, words = trim v\<rparr>])"
    by (simp add: turn_entries_def trim_Nil_iff)
  moreover have "list_all is_space u \<or> \<not> is_space (hd (trim u)) \<and> \<not> is_space (last (trim u))"
    using trim_ends [of u] trim_Nil_iff [of u] by blast
  moreover have "list_all is_space v \<or> \<not> is_space (hd (trim v)) \<and> \<not> is_space (last (trim v))"
    using trim_ends [of v] trim_Nil_iff [of v] by blast
  ultimately show ?thesis
    using onmessage_turn_complete(2,3) [OF assms(1)] trim_decomposition [of u]
      trim_decomposition [of v]
    by simp
qed

theorem turn_complete_commits_trimmed_witness:
  "turn_done padded_turn
   \<and> transcript (onmessage (\<lambda>d. 0) padded_turn 0 listening) = [\<lparr>speaker = User, words = ''all ok''\<rparr>]
   \<and> currentInputTranscriptionRef (onmessage (\<lambda>d. 0) padded_turn 0 listening) = []
   \<and> currentOutputTranscriptionRef (onmessage (\<lambda>d. 0) padded_turn 0 listening) = []"
proof -
  have t: "turn_done padded_turn" by (simp add: turn_done_def padded_turn_def no_content_def)
  have i: "currentInputTranscriptionRef listening @ input_text padded_turn = ''  all ok  ''"
    "currentOutputTranscriptionRef listening @ output_text padded_turn = [CHR 0x0A, CHR '' '']"
    by (simp_all add: listening_def initial_def input_text_def output_text_def padded_turn_def
        no_content_def shown_def)
  have e: "transcript listening = []" by (simp add: listening_def initial_def)
  show ?thesis
    using turn_complete_commits_trimmed [where s = listening and decoded = "\<lambda>d. 0" and now = 0, OF t] t
    by (simp add: i e is_space_def trim_def)
qed

text \<open>
  C6. Whatever the order in which the partial transcriptions of a turn arrive, at the
  message with \<open>turnComplete\<close> the user's utterance, the inputs concatenated and trimmed, is
  appended first if it is not empty, and the model's utterance after it if it is not
  empty.
\<close>

theorem turn_user_before_model:
  fixes s :: conversation and ms :: "(message \<times> real) list" and m :: message and now :: real
  assumes "list_all (\<lambda>p. \<not> turn_done (fst p)) ms" and "turn_done m"
  defines "u \<equiv> trim (currentInputTranscriptionRef s @ concat (map (input_text \<circ> fst) (ms @ [(m, now)])))"
    and "v \<equiv> trim (currentOutputTranscriptionRef s @ concat (map (output_text \<circ> fst) (ms @ [(m, now)])))"
  shows "transcript (receive decoded (ms @ [(m, now)]) s) =
           transcript s @
           (if u = [] then [] else [\<lparr>speaker = User, words = u\<rparr>]) @
           (if v = [] then [] else [\<lparr>speaker = Model, words = v\<rparr>])"
proof -
  note o = receive_turn_open [OF assms(1), of decoded s]
  show ?thesis
    unfolding u_def v_def
    by (simp add: receive_snoc onmessage_turn_complete(1) [OF assms(2)] o turn_entries_def)
qed

theorem turn_user_before_model_witness:
  "list_all (\<lambda>p. \<not> turn_done (fst p)) [(input_msg ''he'', 1), (output_msg ''hi'', 2), (input_msg ''llo'', 3)]
   \<and> turn_done turn_complete_msg
   \<and> transcript connected = []
   \<and> transcript (receive (\<lambda>d. 0)
        ([(input_msg ''he'', 1), (output_msg ''hi'', 2), (input_msg ''llo'', 3)] @ [(turn_complete_msg, 4)])
        connected) =
       [\<lparr>speaker = User, words = ''hello''\<rparr>, \<lparr>speaker = Model, words = ''hi''\<rparr>]"
proof -
  have a: "list_all (\<lambda>p. \<not> turn_done (fst p)) [(input_msg ''he'', 1), (output_msg ''hi'', 2), (input_msg ''llo'', 3)]"
    by (simp add: turn_done_def input_msg_def output_msg_def no_content_def)
  have b: "turn_done turn_complete_msg"
    by (simp add: turn_done_def turn_complete_msg_def no_content_def)
  have c: "transcript connected = []" "currentInputTranscriptionRef connected = []"
    "currentOutputTranscriptionRef connected = []"
    by (simp_all add: connected_def run_def step_def live_def resume_start_def startConversation_sync_def
        startConversation_settled_def onopen_def initial_def
        Let_def)
  have t: "input_text (input_msg ''he'') = ''he''" "input_text (input_msg ''llo'') = ''llo''"
    "input_text (output_msg ''hi'') = []" "input_text turn_complete_msg = []"
    "output_text (input_msg ''he'') = []" "output_text (input_msg ''llo'') = []"
    "output_text (output_msg ''hi'') = ''hi''" "output_text turn_complete_msg = []"
    by (simp_all add: input_text_def output_text_def input_msg_def output_msg_def
        turn_complete_msg_def no_content_def shown_def)
  show ?thesis
    using turn_user_before_model [OF a b, where s = connected and decoded = "\<lambda>d. 0" and now = 4] a b
    by (simp add: c t trim_def is_space_def)
qed

subsection \<open>Playback scheduling\<close>

lemma starts_of_append: "starts_of (xs @ ys) = starts_of xs @ starts_of ys"
  by (simp add: starts_of_def)

lemma stops_of_append: "stops_of (xs @ ys) = stops_of xs @ stops_of ys"
  by (simp add: stops_of_def)

lemma onmessage_plays:
  assumes "plays m" and "outputAudioContextRef s"
  shows "effects (onmessage decoded m now s) =
           effects s @ [SourceStart (created s) (max (nextStartTimeRef s) now)]"
    and "nextStartTimeRef (onmessage decoded m now s) =
           max (nextStartTimeRef s) now + decoded (chunk_of m)"
    and "outputAudioContextRef (onmessage decoded m now s)"
    and "audioSourcesRef (onmessage decoded m now s) = audioSourcesRef s @ [created s]"
    and "created (onmessage decoded m now s) = Suc (created s)"
proof -
  from assms(1) obtain d where d: "audioData_of m = Inr (Some d)" "d \<noteq> []" "chunk_of m = d"
    by (auto simp: plays_def chunk_of_def split: sum.splits option.splits)
  have i: "(case serverContent m of None \<Rightarrow> False | Some sc \<Rightarrow> interrupted sc) = False"
    using assms(1) by (simp add: plays_def is_interrupted_def)
  let ?s2 = "case serverContent m of
                  None \<Rightarrow> append_transcriptions m s
                | Some sc \<Rightarrow> if turnComplete sc then complete_turn (append_transcriptions m s)
                             else append_transcriptions m s"
  have k: "outputAudioContextRef ?s2" "effects ?s2 = effects s"
    "nextStartTimeRef ?s2 = nextStartTimeRef s" "audioSourcesRef ?s2 = audioSourcesRef s"
    "created ?s2 = created s"
    using assms(2)
    by (simp_all add: append_transcriptions_def complete_turn_def Let_def split: option.splits)
  have o: "onmessage decoded m now s = schedule_chunk now (decoded d) ?s2"
    using d(1,2) i k(1) by (auto simp: onmessage_def Let_def split: option.splits)
  show "effects (onmessage decoded m now s) =
           effects s @ [SourceStart (created s) (max (nextStartTimeRef s) now)]"
    "nextStartTimeRef (onmessage decoded m now s) =
           max (nextStartTimeRef s) now + decoded (chunk_of m)"
    "outputAudioContextRef (onmessage decoded m now s)"
    "audioSourcesRef (onmessage decoded m now s) = audioSourcesRef s @ [created s]"
    "created (onmessage decoded m now s) = Suc (created s)"
    unfolding o using k by (simp_all add: schedule_chunk_def emit_def Let_def d(3))
qed

lemma receive_Cons:
  "receive decoded ((m, now) # ms) s = receive decoded ms (onmessage decoded m now s)"
  by (simp add: receive_def)

lemma receive_plays:
  assumes "list_all (\<lambda>p. plays (fst p)) ms" and "outputAudioContextRef s"
  shows "starts_of (effects (receive decoded ms s)) =
           starts_of (effects s) @
           spec_schedule (nextStartTimeRef s) (map (\<lambda>p. (snd p, decoded (chunk_of (fst p)))) ms)
       \<and> nextStartTimeRef (receive decoded ms s) =
           spec_cursor (nextStartTimeRef s) (map (\<lambda>p. (snd p, decoded (chunk_of (fst p)))) ms)"
  using assms
proof (induction ms arbitrary: s)
  case Nil
  show ?case by (simp add: receive_def)
next
  case (Cons p ms)
  obtain m now where p: "p = (m, now)" by (cases p)
  have pm: "plays m" and rest: "list_all (\<lambda>p. plays (fst p)) ms" using Cons.prems(1) p by simp_all
  note o = onmessage_plays [OF pm Cons.prems(2), of decoded now]
  from Cons.IH [OF rest o(3)] show ?case
    by (simp add: p receive_Cons o(1,2) starts_of_append starts_of_def)
qed

text \<open>
  C5. For messages that carry audio, received in order while the output context is open,
  the start times given to \<open>source.start\<close> are those of the specification: each the
  maximum of the cursor and the clock, the cursor then moving on by the chunk's duration.
  Hence three chunks of 0.5 s, 0.3 s and 0.2 s arriving at the same clock time \<open>t0\<close>, with
  the cursor not beyond \<open>t0\<close>, start at \<open>t0\<close>, \<open>t0 + 0.5\<close> and \<open>t0 + 0.8\<close>, each where the
  one before it ends, and leave the cursor at \<open>t0 + 1\<close>.
\<close>

theorem chunks_scheduled_back_to_back:
  assumes "outputAudioContextRef s" and "list_all (\<lambda>p. plays (fst p)) ms"
    and "nextStartTimeRef s \<le> t0"
    and "plays a" and "plays b" and "plays c"
    and "decoded (chunk_of a) = 0.5" and "decoded (chunk_of b) = 0.3" and "decoded (chunk_of c) = 0.2"
  shows "starts_of (effects (receive decoded ms s)) =
           starts_of (effects s) @
           spec_schedule (nextStartTimeRef s) (map (\<lambda>p. (snd p, decoded (chunk_of (fst p)))) ms)
       \<and> nextStartTimeRef (receive decoded ms s) =
           spec_cursor (nextStartTimeRef s) (map (\<lambda>p. (snd p, decoded (chunk_of (fst p)))) ms)
       \<and> starts_of (effects (receive decoded [(a, t0), (b, t0), (c, t0)] s)) =
           starts_of (effects s) @ [t0, t0 + 0.5, t0 + 0.8]
       \<and> nextStartTimeRef (receive decoded [(a, t0), (b, t0), (c, t0)] s) = t0 + 1"
proof -
  have three: "list_all (\<lambda>p. plays (fst p)) [(a, t0), (b, t0), (c, t0)]"
    using assms(4,5,6) by simp
  have "max (nextStartTimeRef s) t0 = t0" using assms(3) by simp
  then show ?thesis
    using receive_plays [OF assms(2,1), of decoded] receive_plays [OF three assms(1), of decoded]
    by (simp add: assms(7,8,9))
qed

theorem chunks_scheduled_back_to_back_witness:
  "outputAudioContextRef connected
   \<and> nextStartTimeRef connected \<le> 2
   \<and> plays (audio_msg ''AAAAA'') \<and> plays (audio_msg ''BBB'') \<and> plays (audio_msg ''CC'')
   \<and> tenths (chunk_of (audio_msg ''AAAAA'')) = 0.5
   \<and> tenths (chunk_of (audio_msg ''BBB'')) = 0.3
   \<and> tenths (chunk_of (audio_msg ''CC'')) = 0.2
   \<and> starts_of (effects (receive tenths
         [(audio_msg ''AAAAA'', 2), (audio_msg ''BBB'', 2), (audio_msg ''CC'', 2)] connected)) =
       [2, 2.5, 2.8]
   \<and> nextStartTimeRef (receive tenths
         [(audio_msg ''AAAAA'', 2), (audio_msg ''BBB'', 2), (audio_msg ''CC'', 2)] connected) = 3"
proof -
  have c: "outputAudioContextRef connected" "nextStartTimeRef connected \<le> 2"
    "effects connected = []"
    by (simp_all add: connected_def run_def step_def live_def resume_start_def startConversation_sync_def
        startConversation_settled_def onopen_def initial_def
        Let_def)
  have p: "plays (audio_msg ''AAAAA'')" "plays (audio_msg ''BBB'')" "plays (audio_msg ''CC'')"
    by (simp_all add: plays_def chunk_of_def audioData_of_def audio_msg_def is_interrupted_def
        no_content_def)
  have d: "tenths (chunk_of (audio_msg ''AAAAA'')) = 0.5"
    "tenths (chunk_of (audio_msg ''BBB'')) = 0.3"
    "tenths (chunk_of (audio_msg ''CC'')) = 0.2"
    by (simp_all add: tenths_def chunk_of_def audioData_of_def audio_msg_def no_content_def)
  have l: "list_all (\<lambda>p. plays (fst p)) [(audio_msg ''AAAAA'', 2 :: real)]" using p by simp
  show ?thesis
    using chunks_scheduled_back_to_back [OF c(1) l c(2) p d] c p d
    by (simp add: starts_of_def)
qed



subsection \<open>Stopping\<close>

lemma stopAudioProcessing_fields:
  "status (stopAudioProcessing s) = status s"
  "sessionPromiseRef (stopAudioProcessing s) = sessionPromiseRef s"
  "audioSourcesRef (stopAudioProcessing s) = audioSourcesRef s"
  "stops_of (effects (stopAudioProcessing s)) = stops_of (effects s)"
  "uncaught_of (effects (stopAudioProcessing s)) = uncaught_of (effects s)"
  "\<not> mediaStreamRef (stopAudioProcessing s)" "\<not> scriptProcessorRef (stopAudioProcessing s)"
  "\<not> mediaStreamSourceRef (stopAudioProcessing s)" "\<not> inputAudioContextRef (stopAudioProcessing s)"
  "\<not> outputAudioContextRef (stopAudioProcessing s)"
  "connections (stopAudioProcessing s) = connections s"
  "awaiting (stopAudioProcessing s) = awaiting s"
  "starting (stopAudioProcessing s) = starting s"
  "nextStartTimeRef (stopAudioProcessing s) = nextStartTimeRef s"
  by (simp_all add: stopAudioProcessing_def emit_def stops_of_def uncaught_of_def)

lemma stopAudioProcessing_released:
  assumes "\<not> mediaStreamRef s" "\<not> scriptProcessorRef s" "\<not> mediaStreamSourceRef s"
    "\<not> inputAudioContextRef s" "\<not> outputAudioContextRef s"
  shows "stopAudioProcessing s = s"
  using assms by (simp add: stopAudioProcessing_def emit_def)

text \<open>The call up to its \<open>await\<close>, or to its end when there is no promise to wait for.\<close>

lemma stopConversation_sync_status: "status (stopConversation_sync s) = Stopped"
  by (simp add: stopConversation_sync_def Let_def stopAudioProcessing_fields stop_sources_def
      emit_def split: option.splits)

lemma stopConversation_sync_connections:
  "connections (stopConversation_sync s) = connections s"
  "starting (stopConversation_sync s) = starting s"
  by (simp_all add: stopConversation_sync_def Let_def stopAudioProcessing_fields stop_sources_def
      emit_def split: option.splits)

lemma stopConversation_sync_no_promise:
  assumes "sessionPromiseRef s = None"
  shows "status (stopConversation_sync s) = Stopped"
    and "audioSourcesRef (stopConversation_sync s) = []"
    and "nextStartTimeRef (stopConversation_sync s) = 0"
    and "released (stopConversation_sync s)"
    and "stops_of (effects (stopConversation_sync s)) = stops_of (effects s) @ audioSourcesRef s"
    and "uncaught_of (effects (stopConversation_sync s)) = uncaught_of (effects s)"
    and "awaiting (stopConversation_sync s) = awaiting s"
proof -
  note f = stopAudioProcessing_fields [of "s\<lparr>status := Stopped\<rparr>"]
  have e: "stopConversation_sync s = stop_sources (stopAudioProcessing (s\<lparr>status := Stopped\<rparr>))"
    using assms f(2) by (simp add: stopConversation_sync_def Let_def)
  show "status (stopConversation_sync s) = Stopped"
    using f(1) by (simp add: e stop_sources_def emit_def)
  show "audioSourcesRef (stopConversation_sync s) = []"
    by (simp add: e stop_sources_def)
  show "nextStartTimeRef (stopConversation_sync s) = 0"
    by (simp add: e stop_sources_def)
  show "released (stopConversation_sync s)"
    using f(2,6-10) assms by (simp add: e stop_sources_def emit_def released_def)
  show "stops_of (effects (stopConversation_sync s)) = stops_of (effects s) @ audioSourcesRef s"
    using f(3,4) by (simp add: e stop_sources_def emit_def stops_of_append)
      (simp add: stops_of_def comp_def)
  show "uncaught_of (effects (stopConversation_sync s)) = uncaught_of (effects s)"
    using f(5) by (simp add: e stop_sources_def emit_def uncaught_of_def)
  show "awaiting (stopConversation_sync s) = awaiting s"
    using f(12) by (simp add: e stop_sources_def emit_def)
qed

lemma stopConversation_sync_promise:
  assumes "sessionPromiseRef s = Some p"
  shows "stopConversation_sync s =
           (stopAudioProcessing (s\<lparr>status := Stopped\<rparr>))\<lparr>awaiting := awaiting s @ [p]\<rparr>"
  using assms stopAudioProcessing_fields(2,12) [of "s\<lparr>status := Stopped\<rparr>"]
  by (simp add: stopConversation_sync_def Let_def)

text \<open>The rest of the call never touches the status.\<close>

lemma stopConversation_settled_fields:
  "status (stopConversation_settled p s) = status s"
  "audioSourcesRef (stopConversation_settled p s) = []"
  "nextStartTimeRef (stopConversation_settled p s) = 0"
  "sessionPromiseRef (stopConversation_settled p s) = None"
  "connections (stopConversation_settled p s) = connections s"
  "starting (stopConversation_settled p s) = starting s"
  "uncaught_of (effects (stopConversation_settled p s)) = uncaught_of (effects s)"
  "stops_of (effects (stopConversation_settled p s)) = stops_of (effects s) @ audioSourcesRef s"
proof -
  show "status (stopConversation_settled p s) = status s"
    "audioSourcesRef (stopConversation_settled p s) = []"
    "nextStartTimeRef (stopConversation_settled p s) = 0"
    "sessionPromiseRef (stopConversation_settled p s) = None"
    "connections (stopConversation_settled p s) = connections s"
    "starting (stopConversation_settled p s) = starting s"
    by (simp_all add: stopConversation_settled_def stop_sources_def emit_def)
  show "uncaught_of (effects (stopConversation_settled p s)) = uncaught_of (effects s)"
    by (simp add: stopConversation_settled_def stop_sources_def emit_def uncaught_of_def
        split: session_promise.splits bool.splits)
  show "stops_of (effects (stopConversation_settled p s)) = stops_of (effects s) @ audioSourcesRef s"
    by (simp add: stopConversation_settled_def stop_sources_def emit_def stops_of_append
        split: session_promise.splits bool.splits)
      (simp_all add: stops_of_def comp_def)
qed

lemma resume_stop_fields:
  "status (resume_stop i s) = status s" "connections (resume_stop i s) = connections s"
  "starting (resume_stop i s) = starting s"
  by (simp_all add: resume_stop_def stopConversation_settled_fields)

text \<open>
  A call that no other handler interrupts: with a promise in the ref, the call is
  suspended and goes on when the promise has settled, before anything else runs. It ends
  with the status \<open>stopped\<close>, raises nothing, stops every tracked source, empties the set,
  resets the cursor and releases the resources, whatever became of the promise.
\<close>

lemma stopConversation_uninterrupted:
  assumes "sessionPromiseRef s = Some p"
  defines "t \<equiv> resume_stop (length (awaiting s)) (stopConversation_sync s)"
  shows "status t = Stopped" and "audioSourcesRef t = []" and "nextStartTimeRef t = 0"
    and "released t" and "awaiting t = awaiting s"
    and "stops_of (effects t) = stops_of (effects s) @ audioSourcesRef s"
    and "uncaught_of (effects t) = uncaught_of (effects s)"
proof -
  let ?a = "stopAudioProcessing (s\<lparr>status := Stopped\<rparr>)"
  note f = stopAudioProcessing_fields [of "s\<lparr>status := Stopped\<rparr>"]
  have t: "t = stopConversation_settled p (?a\<lparr>awaiting := awaiting s\<rparr>)"
    unfolding t_def stopConversation_sync_promise [OF assms(1)]
    by (simp add: resume_stop_def)
  show "status t = Stopped" using f(1) by (simp add: t stopConversation_settled_fields)
  show "audioSourcesRef t = []" by (simp add: t stopConversation_settled_fields)
  show "nextStartTimeRef t = 0" by (simp add: t stopConversation_settled_fields)
  show "released t"
    using f(6-10) by (simp add: t released_def stopConversation_settled_def stop_sources_def emit_def)
  show "awaiting t = awaiting s"
    by (simp add: t stopConversation_settled_def stop_sources_def emit_def)
  show "stops_of (effects t) = stops_of (effects s) @ audioSourcesRef s"
    using f(3,4) by (simp add: t stopConversation_settled_fields)
  show "uncaught_of (effects t) = uncaught_of (effects s)"
    using f(5) by (simp add: t stopConversation_settled_fields)
qed

text \<open>A call in a state that is stopped, released and silent changes nothing.\<close>

lemma stopConversation_stopped:
  assumes "status s = Stopped" and "released s" and "audioSourcesRef s = []"
    and "nextStartTimeRef s = 0"
  shows "stopConversation_sync s = s"
proof -
  have a: "s\<lparr>status := Stopped\<rparr> = s" using assms(1) by simp
  have b: "stopAudioProcessing s = s"
    using assms(2) by (intro stopAudioProcessing_released) (simp_all add: released_def)
  have n: "sessionPromiseRef s = None" using assms(2) by (simp add: released_def)
  have "stopConversation_sync s = stop_sources s"
    by (simp only: stopConversation_sync_def Let_def a b n option.case)
  also have "\<dots> = s" using assms(3,4) by (simp add: stop_sources_def emit_def)
  finally show ?thesis .
qed

lemma stopConversation_before_start: "stopConversation_sync initial = initial\<lparr>status := Stopped\<rparr>"
  by (simp add: stopConversation_sync_def stopAudioProcessing_def stop_sources_def emit_def
      initial_def Let_def)

text \<open>
  C9. \<open>stopConversation\<close> does not leave the status \<open>stopped\<close> for every prior state. The
  Stop button is offered while the status is \<open>connecting\<close>. Pressed then, with \<open>connect\<close>
  called and the session promise pending, the call sets \<open>stopped\<close> and is suspended on the
  promise; the connection is not closed, and when it opens \<open>onopen\<close> sets \<open>active\<close>. The
  call, going on once the promise has settled, closes the session and does not touch the
  status: it is over with the status \<open>active\<close>, the session closed and the capture
  resources released. (\<open>onopen\<close>, finding the input context gone, also raises a
  \<open>TypeError\<close>.)
\<close>

theorem stop_while_connecting_ends_active:
  "status (run (\<lambda>d. 0) [Start, ResumeStart 0 (Connects (Session True))] initial) = Connecting
   \<and> status (run (\<lambda>d. 0) [Start, ResumeStart 0 (Connects (Session True)), Stop] initial) = Stopped
   \<and> awaiting (run (\<lambda>d. 0) [Start, ResumeStart 0 (Connects (Session True)), Stop] initial) =
       [Session True]
   \<and> status (run (\<lambda>d. 0) [Start, ResumeStart 0 (Connects (Session True)), Stop, Open 0] initial) =
       Active
   \<and> status (run (\<lambda>d. 0) [Start, ResumeStart 0 (Connects (Session True)), Stop, Open 0,
                            ResumeStop 0] initial) = Active
   \<and> awaiting (run (\<lambda>d. 0) [Start, ResumeStart 0 (Connects (Session True)), Stop, Open 0,
                              ResumeStop 0] initial) = []
   \<and> effects (run (\<lambda>d. 0) [Start, ResumeStart 0 (Connects (Session True)), Stop, Open 0,
                             ResumeStop 0] initial) =
       [TrackStop, InputContextClose, OutputContextClose, Uncaught, SessionClose]"
  by (simp add: run_def step_def live_def resume_start_def resume_stop_def
      startConversation_sync_def startConversation_settled_def
      stopConversation_sync_def stopConversation_settled_def stopAudioProcessing_def
      stop_sources_def onopen_def emit_def initial_def Let_def)

subsection \<open>The status over a run\<close>

lemma run_snoc: "run decoded (evs @ [ev]) s = step decoded (run decoded evs s) ev"
  by (simp add: run_def)

lemma run_Cons: "run decoded (ev # evs) s = run decoded evs (step decoded s ev)"
  by (simp add: run_def)

lemma startConversation_sync_status:
  "status (startConversation_sync s) =
     (if status s = Active \<or> status s = Connecting then status s else Connecting)"
  by (simp add: startConversation_sync_def)

lemma startConversation_sync_reentrant:
  "status s = Active \<or> status s = Connecting \<Longrightarrow> startConversation_sync s = s"
  by (auto simp: startConversation_sync_def)

lemma startConversation_sync_fields:
  assumes "status s \<noteq> Active" and "status s \<noteq> Connecting"
  shows "starting (startConversation_sync s) = starting s @ [status s]"
    and "connections (startConversation_sync s) = connections s"
  using assms by (simp_all add: startConversation_sync_def)

lemma startConversation_settled_status:
  "status (startConversation_settled env captured s) = (if fails env then Error else status s)"
  by (cases env) (simp_all add: startConversation_settled_def start_failed_def emit_def)

lemma startConversation_settled_connections:
  "connections (startConversation_settled env captured s) =
     (if fails env then connections s else connections s @ [Some captured])"
  by (cases env) (simp_all add: startConversation_settled_def start_failed_def emit_def)

lemma startConversation_settled_starting:
  "starting (startConversation_settled env captured s) = starting s"
  by (cases env) (simp_all add: startConversation_settled_def start_failed_def emit_def)

lemma resume_start_status:
  "status (resume_start i env s) = status s \<or> status (resume_start i env s) = Error"
  by (simp add: resume_start_def startConversation_settled_status)

lemma onopen_fields:
  "status (onopen s) = Active" "connections (onopen s) = connections s"
  "starting (onopen s) = starting s"
  by (simp_all add: onopen_def emit_def Let_def)

lemma onerror_fields:
  "status (onerror s) = Stopped"
  "errorText (onerror s) = Some ''An error occurred with the conversation.''"
  "connections (onerror s) = connections s"
  by (simp_all add: onerror_def stopConversation_sync_status stopConversation_sync_connections emit_def)
     (simp add: stopConversation_sync_def stopAudioProcessing_def stop_sources_def emit_def Let_def
        split: option.splits)

lemma onmessage_status: "status (onmessage decoded m now s) = status s"
  by (simp add: onmessage_def append_transcriptions_def complete_turn_def schedule_chunk_def
      stop_sources_def emit_def Let_def split: option.splits sum.splits)

text \<open>A conversation started, connected and opened, then stopped or failing.\<close>

lemma run_started:
  fixes decoded :: "string \<Rightarrow> real"
  assumes "status s \<noteq> Active" and "status s \<noteq> Connecting"
  defines "i \<equiv> length (starting s)" and "k \<equiv> length (connections s)"
  shows "status (run decoded [Start] s) = Connecting"
    and "fails env \<Longrightarrow> status (run decoded [Start, ResumeStart i env] s) = Error"
    and "status (run decoded [Start, ResumeStart i (Connects p)] s) = Connecting"
    and "status (run decoded [Start, ResumeStart i (Connects p), Open k] s) = Active"
    and "status (run decoded [Start, ResumeStart i (Connects p), Open k, Stop] s) = Stopped"
    and "status (run decoded [Start, ResumeStart i (Connects p), Open k, SessionError k] s) = Stopped"
proof -
  let ?a = "startConversation_sync s"
  note f = startConversation_sync_fields [OF assms(1,2)]
  have a: "status ?a = Connecting" using assms(1,2) by (simp add: startConversation_sync_status)
  have r1: "run decoded [Start] s = ?a" by (simp add: run_def step_def)
  let ?t = "?a\<lparr>starting := starting s\<rparr>"
  have rs: "resume_start i env' ?a = startConversation_settled env' (status s) ?t" for env'
    by (simp add: resume_start_def f(1) i_def)
  have r2: "run decoded [Start, ResumeStart i env'] s = startConversation_settled env' (status s) ?t"
    for env'
    using run_snoc [of decoded "[Start]" "ResumeStart i env'" s] r1 rs by (simp add: step_def)
  let ?c = "startConversation_settled (Connects p) (status s) ?t"
  have c: "status ?c = Connecting" using a by (simp add: startConversation_settled_status)
  have cc: "connections ?c = connections s @ [Some (status s)]"
    using f(2) by (simp add: startConversation_settled_connections)
  then have l: "live k ?c = Some (status s)" by (simp add: live_def k_def)
  have "live k (onopen ?c) = live k ?c" by (simp add: live_def onopen_fields)
  with l have lo: "live k (onopen ?c) = Some (status s)" by simp
  have r3: "run decoded [Start, ResumeStart i (Connects p), Open k] s = onopen ?c"
    using run_snoc [of decoded "[Start, ResumeStart i (Connects p)]" "Open k" s] r2 l
    by (simp add: step_def)
  have r4: "run decoded [Start, ResumeStart i (Connects p), Open k, Stop] s =
      stopConversation_sync (onopen ?c)"
    using run_snoc [of decoded "[Start, ResumeStart i (Connects p), Open k]" Stop s] r3
    by (simp add: step_def)
  have r5: "run decoded [Start, ResumeStart i (Connects p), Open k, SessionError k] s =
      onerror (onopen ?c)"
    using run_snoc [of decoded "[Start, ResumeStart i (Connects p), Open k]" "SessionError k" s]
      r3 lo
    by (simp add: step_def)
  show "status (run decoded [Start] s) = Connecting" by (simp only: r1 a)
  show "fails env \<Longrightarrow> status (run decoded [Start, ResumeStart i env] s) = Error"
    by (simp add: r2 startConversation_settled_status)
  show "status (run decoded [Start, ResumeStart i (Connects p)] s) = Connecting"
    by (simp only: r2 c)
  show "status (run decoded [Start, ResumeStart i (Connects p), Open k] s) = Active"
    by (simp only: r3 onopen_fields)
  show "status (run decoded [Start, ResumeStart i (Connects p), Open k, Stop] s) = Stopped"
    by (simp only: r4 stopConversation_sync_status)
  show "status (run decoded [Start, ResumeStart i (Connects p), Open k, SessionError k] s) = Stopped"
    by (simp only: r5 onerror_fields)
qed

text \<open>No handler but \<open>onclose\<close> sets the status \<open>idle\<close>.\<close>

lemma step_idle:
  assumes "status (step decoded s ev) = Idle"
  shows "status s = Idle \<or> (\<exists>k. ev = Close k)"
proof (cases ev)
  case Start
  with assms show ?thesis
    by (simp add: step_def startConversation_sync_status split: if_splits)
next
  case Stop
  with assms show ?thesis by (simp add: step_def stopConversation_sync_status)
next
  case (ResumeStart i env)
  with assms resume_start_status [of i env s] show ?thesis by (auto simp: step_def)
next
  case (ResumeStop i)
  with assms show ?thesis by (simp add: step_def resume_stop_fields)
next
  case (Open k)
  with assms show ?thesis by (simp add: step_def onopen_fields split: option.splits)
next
  case (Message k m now)
  with assms show ?thesis by (simp add: step_def onmessage_status split: option.splits)
next
  case (SessionError k)
  with assms show ?thesis by (simp add: step_def onerror_fields split: option.splits)
next
  case (Close k)
  then show ?thesis by simp
next
  case (Ended source)
  with assms show ?thesis by (simp add: step_def onended_def)
qed

lemma run_idle:
  "status (run decoded evs s) = Idle \<Longrightarrow> status s = Idle \<or> (\<exists>k. Close k \<in> set evs)"
proof (induction evs rule: rev_induct)
  case Nil
  then show ?case by (simp add: run_def)
next
  case (snoc ev evs)
  from snoc.prems have "status (step decoded (run decoded evs s) ev) = Idle"
    by (simp add: run_snoc)
  from step_idle [OF this] snoc.IH show ?case by auto
qed

text \<open>At rest, only the user's actions change the status.\<close>

lemma live_at_rest: "at_rest s \<Longrightarrow> live k s = None"
  by (auto simp: at_rest_def live_def list_all_length)

lemma step_at_rest:
  assumes "at_rest s" and "\<not> user_action ev"
  shows "status (step decoded s ev) = status s" and "at_rest (step decoded s ev)"
  using assms live_at_rest [OF assms(1)]
  by (cases ev; simp add: step_def resume_stop_fields resume_start_def onended_def at_rest_def)+

lemma run_at_rest:
  assumes "at_rest s" and "\<forall>ev \<in> set evs. \<not> user_action ev"
  shows "status (run decoded evs s) = status s"
  using assms
proof (induction evs arbitrary: s)
  case Nil
  then show ?case by (simp add: run_def)
next
  case (Cons ev evs)
  from Cons.prems have a: "\<not> user_action ev" and b: "\<forall>e \<in> set evs. \<not> user_action e" by simp_all
  note st = step_at_rest [OF Cons.prems(1) a, of decoded]
  show ?case using Cons.IH [OF st(2) b] st(1) by (simp add: run_Cons)
qed

text \<open>
  C4. The status follows \<open>idle \<rightarrow> connecting \<rightarrow> active \<rightarrow> {stopped | error}\<close>.
  \<open>startConversation\<close> does nothing while the status is \<open>connecting\<close> or \<open>active\<close>; from
  any other status, \<open>idle\<close>, \<open>stopped\<close> and \<open>error\<close> alike, it sets \<open>connecting\<close>, and
  then \<open>error\<close> when it fails, in each of the four ways in which it can fail. \<open>onopen\<close>
  sets \<open>active\<close>; \<open>stopConversation\<close> sets \<open>stopped\<close> and, once suspended, does not touch
  the status again; a session error sets \<open>error\<close> and, through the \<open>stopConversation\<close> it
  calls at once, \<open>stopped\<close>, with the error text kept. So a conversation started and opened
  is \<open>active\<close>, and \<open>stopped\<close> after a stop or a session error. Teardown does not bring the
  status back to \<open>idle\<close>: whatever the run, the status is \<open>idle\<close> at its end only if it
  was \<open>idle\<close> at its start or \<open>onclose\<close> ran; and with no live connection and no start
  under way the status stays as it is until the user's next action.
\<close>

theorem status_transitions:
  "status (startConversation_sync s) =
     (if status s = Active \<or> status s = Connecting then status s else Connecting)
   \<and> (status s = Active \<or> status s = Connecting \<longrightarrow> startConversation_sync s = s)
   \<and> status (startConversation_settled env captured s) = (if fails env then Error else status s)
   \<and> status (onopen s) = Active
   \<and> status (stopConversation_sync s) = Stopped
   \<and> status (stopConversation_settled q s) = status s
   \<and> status (onerror s) = Stopped
   \<and> errorText (onerror s) = Some ''An error occurred with the conversation.''
   \<and> (status s \<noteq> Active \<and> status s \<noteq> Connecting \<longrightarrow>
        status (run decoded [Start] s) = Connecting
        \<and> (fails env \<longrightarrow>
             status (run decoded [Start, ResumeStart (length (starting s)) env] s) = Error)
        \<and> status (run decoded [Start, ResumeStart (length (starting s)) (Connects p)] s) =
            Connecting
        \<and> status (run decoded [Start, ResumeStart (length (starting s)) (Connects p),
                                 Open (length (connections s))] s) = Active
        \<and> status (run decoded [Start, ResumeStart (length (starting s)) (Connects p),
                                 Open (length (connections s)), Stop] s) = Stopped
        \<and> status (run decoded [Start, ResumeStart (length (starting s)) (Connects p),
                                 Open (length (connections s)),
                                 SessionError (length (connections s))] s) = Stopped)
   \<and> (status (run decoded evs s) = Idle \<longrightarrow> status s = Idle \<or> (\<exists>k. Close k \<in> set evs))
   \<and> (at_rest s \<and> (\<forall>ev \<in> set evs. \<not> user_action ev) \<longrightarrow>
        status (run decoded evs s) = status s)"
proof -
  have path: "status s \<noteq> Active \<and> status s \<noteq> Connecting \<longrightarrow>
        status (run decoded [Start] s) = Connecting
        \<and> (fails env \<longrightarrow>
             status (run decoded [Start, ResumeStart (length (starting s)) env] s) = Error)
        \<and> status (run decoded [Start, ResumeStart (length (starting s)) (Connects p)] s) =
            Connecting
        \<and> status (run decoded [Start, ResumeStart (length (starting s)) (Connects p),
                                 Open (length (connections s))] s) = Active
        \<and> status (run decoded [Start, ResumeStart (length (starting s)) (Connects p),
                                 Open (length (connections s)), Stop] s) = Stopped
        \<and> status (run decoded [Start, ResumeStart (length (starting s)) (Connects p),
                                 Open (length (connections s)),
                                 SessionError (length (connections s))] s) = Stopped"
  proof (intro impI)
    assume "status s \<noteq> Active \<and> status s \<noteq> Connecting"
    then have n: "status s \<noteq> Active" "status s \<noteq> Connecting" by simp_all
    note r = run_started [OF n]
    show "status (run decoded [Start] s) = Connecting
        \<and> (fails env \<longrightarrow>
             status (run decoded [Start, ResumeStart (length (starting s)) env] s) = Error)
        \<and> status (run decoded [Start, ResumeStart (length (starting s)) (Connects p)] s) =
            Connecting
        \<and> status (run decoded [Start, ResumeStart (length (starting s)) (Connects p),
                                 Open (length (connections s))] s) = Active
        \<and> status (run decoded [Start, ResumeStart (length (starting s)) (Connects p),
                                 Open (length (connections s)), Stop] s) = Stopped
        \<and> status (run decoded [Start, ResumeStart (length (starting s)) (Connects p),
                                 Open (length (connections s)),
                                 SessionError (length (connections s))] s) = Stopped"
      using r(1) [of decoded] r(2) [of _ decoded] r(3-6) by blast
  qed
  have idle: "status (run decoded evs s) = Idle \<longrightarrow> status s = Idle \<or> (\<exists>k. Close k \<in> set evs)"
    using run_idle [of decoded evs s] by blast
  have quiet: "at_rest s \<and> (\<forall>ev \<in> set evs. \<not> user_action ev) \<longrightarrow>
        status (run decoded evs s) = status s"
    using run_at_rest [of s evs decoded] by blast
  have re: "status s = Active \<or> status s = Connecting \<longrightarrow> startConversation_sync s = s"
    using startConversation_sync_reentrant [of s] by blast
  show ?thesis
    by (intro conjI startConversation_sync_status re startConversation_settled_status
        onopen_fields(1) stopConversation_sync_status stopConversation_settled_fields(1)
        onerror_fields(1,2) path idle quiet)
qed

theorem status_transitions_witness:
  "status connected = Active
   \<and> startConversation_sync connected = connected
   \<and> fails OutputContextFails
   \<and> status initial \<noteq> Active \<and> status initial \<noteq> Connecting
   \<and> status (run (\<lambda>d. 0) [Start] initial) = Connecting
   \<and> status (run (\<lambda>d. 0) [Start, ResumeStart 0 OutputContextFails] initial) = Error
   \<and> status (run (\<lambda>d. 0) [Start, ResumeStart 0 (Connects (Session True)), Open 0] initial) = Active
   \<and> status (run (\<lambda>d. 0) [Start, ResumeStart 0 (Connects (Session True)), Open 0, Stop] initial) =
       Stopped
   \<and> status (run (\<lambda>d. 0) [Start, ResumeStart 0 (Connects (Session True)), Open 0,
                            SessionError 0] initial) = Stopped
   \<and> status (run (\<lambda>d. 0) [Close 0] connected) = Idle
   \<and> Close 0 \<in> set [Close 0]
   \<and> at_rest (run (\<lambda>d. 0) [Start, ResumeStart 0 OutputContextFails] initial)
   \<and> \<not> user_action (Open 0) \<and> \<not> user_action (Close 0) \<and> \<not> user_action (ResumeStop 0)
   \<and> status (run (\<lambda>d. 0) [Open 0, Close 0, ResumeStop 0]
               (run (\<lambda>d. 0) [Start, ResumeStart 0 OutputContextFails] initial)) = Error"
proof -
  have c: "status connected = Active" "connections connected = [Some Idle]"
    by (simp_all add: connected_def run_def step_def live_def resume_start_def
        startConversation_sync_def startConversation_settled_def onopen_def initial_def Let_def)
  have i: "status initial \<noteq> Active" "status initial \<noteq> Connecting" "connections initial = []"
    "starting initial = []"
    by (simp_all add: initial_def)
  have d: "status (run (\<lambda>d. 0) [Close 0] connected) = Idle"
    using c by (simp add: run_def step_def live_def onclose_def stopAudioProcessing_fields)
  have f: "at_rest (run (\<lambda>d. 0) [Start, ResumeStart 0 OutputContextFails] initial)"
    "status (run (\<lambda>d. 0) [Start, ResumeStart 0 OutputContextFails] initial) = Error"
    by (simp_all add: at_rest_def run_def step_def resume_start_def startConversation_sync_def
        startConversation_settled_def start_failed_def emit_def initial_def Let_def)
  show ?thesis
    using status_transitions [where env = OutputContextFails and s = connected
        and decoded = "\<lambda>d. 0" and p = "Session True" and evs = "[Close 0]"]
      status_transitions [where env = OutputContextFails and s = initial
        and decoded = "\<lambda>d. 0" and p = "Session True" and evs = "[Close 0]"]
      status_transitions [where env = MicDenied
        and s = "run (\<lambda>d. 0) [Start, ResumeStart 0 OutputContextFails] initial"
        and decoded = "\<lambda>d. 0" and p = "Session True" and evs = "[Open 0, Close 0, ResumeStop 0]"]
      c i d f
    by simp
qed

text \<open>
  Against C4 as first stated: a start that fails because the microphone is denied ends
  in \<open>error\<close> with no session and no connection. Nothing is left of which the teardown
  could complete, no callback can run, and the status stays \<open>error\<close>; it is not \<open>idle\<close>
  when the next start comes.
\<close>

theorem denied_start_stays_error:
  "status (run (\<lambda>d. 0) [Start, ResumeStart 0 MicDenied] initial) = Error
   \<and> sessionPromiseRef (run (\<lambda>d. 0) [Start, ResumeStart 0 MicDenied] initial) = None
   \<and> connections (run (\<lambda>d. 0) [Start, ResumeStart 0 MicDenied] initial) = []
   \<and> starting (run (\<lambda>d. 0) [Start, ResumeStart 0 MicDenied] initial) = []
   \<and> awaiting (run (\<lambda>d. 0) [Start, ResumeStart 0 MicDenied] initial) = []
   \<and> status (run (\<lambda>d. 0) [Start, ResumeStart 0 MicDenied, Close 0] initial) = Error
   \<and> status (run (\<lambda>d. 0) [Start, ResumeStart 0 MicDenied, Open 0, SessionError 0, Close 0,
                            ResumeStop 0, ResumeStart 0 MicDenied] initial) = Error
   \<and> status (run (\<lambda>d. 0) [Start, ResumeStart 0 MicDenied, Start] initial) = Connecting"
  by (simp add: run_def step_def live_def resume_start_def resume_stop_def
      startConversation_sync_def startConversation_settled_def start_failed_def
      emit_def initial_def Let_def)

end
